theory Spec2Isabelle
  imports Main "HOL-Library.Sublist" "HOL-Library.AList"
begin

section \<open>Strings and whitespace\<close>

text \<open>
  A Python \<open>str\<close> is modelled as a \<open>string\<close> whose characters are the code points
  0..255.  On that range \<open>str.isspace\<close>, \<open>str.strip\<close> and the regular-expression class
  \<open>\s\<close> all use the same twelve characters, and \<open>\d\<close> is \<open>0..9\<close>.
\<close>

definition py_isspace :: "char \<Rightarrow> bool" where
  "py_isspace c \<longleftrightarrow> c \<in> set [CHR 0x09, CHR 0x0A, CHR 0x0B, CHR 0x0C, CHR 0x0D,
      CHR 0x1C, CHR 0x1D, CHR 0x1E, CHR 0x1F, CHR 0x20, CHR 0x85, CHR 0xA0]"

text \<open>The literal \<open>" \t\n\r"\<close> that the index walk of \<open>search_source_text\<close> tests against.\<close>

definition walk_ws :: "char \<Rightarrow> bool" where
  "walk_ws c \<longleftrightarrow> c \<in> set [CHR 0x20, CHR 0x09, CHR 0x0A, CHR 0x0D]"

text \<open>\<open>re.sub(r"\s+", " ", s)\<close>: every maximal run of whitespace becomes one space.\<close>

function collapse_ws :: "string \<Rightarrow> string" where
  "collapse_ws [] = []"
| "collapse_ws (c # cs) =
     (if py_isspace c then CHR 0x20 # collapse_ws (dropWhile py_isspace cs)
      else c # collapse_ws cs)"
  by pat_completeness auto
termination
  by (relation "measure length") (auto simp: length_dropWhile_le less_Suc_eq_le)

text \<open>\<open>s.strip()\<close>\<close>

definition py_strip :: "string \<Rightarrow> string" where
  "py_strip s = rev (dropWhile py_isspace (rev (dropWhile py_isspace s)))"

text \<open>The local \<open>normalize\<close> of \<open>search_source_text\<close>.\<close>

definition normalize :: "string \<Rightarrow> string" where
  "normalize s = py_strip (collapse_ws s)"

text \<open>\<open>haystack.find(needle)\<close>; \<open>None\<close> stands for the result \<open>-1\<close>.\<close>

fun py_find :: "string \<Rightarrow> string \<Rightarrow> nat option" where
  "py_find [] needle = (if needle = [] then Some 0 else None)"
| "py_find (h # hs) needle =
     (if prefix needle (h # hs) then Some 0 else map_option Suc (py_find hs needle))"

section \<open>Page store and the search function\<close>

text \<open>
  A page of the store, with its keys \<open>number\<close> and \<open>text\<close>; the key \<open>filename\<close> is not
  read by the functions modelled here.
\<close>

record page =
  number :: int
  page_text :: string

datatype py_error = IndexError | KeyError

text \<open>The loop \<open>for pg in pages: if pg["number"] == page_number: ... break\<close>.\<close>

fun find_page :: "int \<Rightarrow> page list \<Rightarrow> page option" where
  "find_page page_number [] = None"
| "find_page page_number (pg # pgs) =
     (if number pg = page_number then Some pg else find_page page_number pgs)"

text \<open>\<open>while src_i < len(source) and source[src_i] in " \t\n\r": src_i += 1\<close>\<close>

function skip_ws :: "string \<Rightarrow> nat \<Rightarrow> nat" where
  "skip_ws source src_i =
     (if src_i < length source \<and> walk_ws (source ! src_i)
      then skip_ws source (Suc src_i) else src_i)"
  by pat_completeness auto
termination
  by (relation "measure (\<lambda>(source, src_i). length source - src_i)") auto

declare skip_ws.simps [simp del]

text \<open>
  The loop \<open>while norm_i < idx\<close> that advances to the start of the match.  Reading
  \<open>source[src_i]\<close> past the end raises \<open>IndexError\<close>.
\<close>

function advance :: "string \<Rightarrow> nat \<Rightarrow> nat \<Rightarrow> nat \<Rightarrow> py_error + nat" where
  "advance source idx src_i norm_i =
     (if norm_i < idx then
        (if length source \<le> src_i then Inl IndexError
         else if walk_ws (source ! src_i)
           then advance source idx (skip_ws source src_i) (Suc norm_i)
           else advance source idx (Suc src_i) (Suc norm_i))
      else Inr src_i)"
  by pat_completeness auto
termination
  by (relation "measure (\<lambda>(source, idx, src_i, norm_i). idx - norm_i)") auto

declare advance.simps [simp del]

text \<open>The loop \<open>while consumed < match_len and src_i < len(source)\<close>.\<close>

function consume :: "string \<Rightarrow> nat \<Rightarrow> nat \<Rightarrow> nat \<Rightarrow> nat" where
  "consume source match_len src_i consumed =
     (if consumed < match_len \<and> src_i < length source then
        (if walk_ws (source ! src_i)
           then consume source match_len (skip_ws source src_i) (Suc consumed)
           else consume source match_len (Suc src_i) (Suc consumed))
      else src_i)"
  by pat_completeness auto
termination
  by (relation "measure (\<lambda>(source, match_len, src_i, consumed). match_len - consumed)") auto

declare consume.simps [simp del]

text \<open>\<open>source[a:b]\<close> for non-negative indices.\<close>

definition slice :: "string \<Rightarrow> nat \<Rightarrow> nat \<Rightarrow> string" where
  "slice source a b = drop a (take b source)"

definition search_source_text :: "string \<Rightarrow> int \<Rightarrow> page list \<Rightarrow> py_error + string option" where
  "search_source_text search_text page_number pages =
     (if search_text = [] \<or> py_strip search_text = [] then Inr None
      else case find_page page_number pages of
        None \<Rightarrow> Inr None
      | Some target_page \<Rightarrow>
          (let needle = normalize search_text in
           if needle = [] then Inr None
           else
             (let source = page_text target_page;
                  source_norm = normalize source
              in case py_find source_norm needle of
                   None \<Rightarrow> Inr None
                 | Some idx \<Rightarrow>
                     (case advance source idx (skip_ws source 0) 0 of
                        Inl e \<Rightarrow> Inl e
                      | Inr match_start \<Rightarrow>
                          Inr (Some (slice source match_start
                                 (consume source (length needle) match_start 0)))))))"

section \<open>Classification results and their verification\<close>

text \<open>
  The classification result is a JSON object; a key that may be absent is an \<open>option\<close>
  field, and \<open>d.get(k, default)\<close> is \<open>py_get\<close>.
\<close>

definition py_get :: "'a option \<Rightarrow> 'a \<Rightarrow> 'a" where
  "py_get v d = (case v of None \<Rightarrow> d | Some x \<Rightarrow> x)"

text \<open>Truth value of an optional string: \<open>None\<close> and the empty string are false.\<close>

definition truthy :: "string option \<Rightarrow> bool" where
  "truthy v = (case v of None \<Rightarrow> False | Some s \<Rightarrow> s \<noteq> [])"

record cls_fn =
  fn_number :: "int option"
  merge_status :: "string option"
  merge_location :: "string option"
  fn_text :: "string option"

record cls_page =
  page_number :: "int option"
  footnotes :: "cls_fn list option"

record para_range =
  range_start :: "int option"
  range_end :: "int option"

record coa =
  coa_number :: "int option"
  search_text :: "string option"
  coa_page :: "int option"
  paragraph_range :: "para_range option"
  title :: "string option"
  title_verified :: "bool option"
  title_proposed_value :: "string option"
  paragraph_range_verified :: "bool option"
  missing_paragraphs :: "int list option"

text \<open>
  \<open>document_title\<close> is either the object \<open>{search_text, page}\<close> of the proposer or, once
  flattened, a plain string.
\<close>

datatype title_value = TitleObj "string option" "int option" | TitleStr string

record caption =
  document_title :: "title_value option"
  document_title_verified :: "bool option"
  document_title_proposed_value :: "string option"

record classification =
  caption_info :: "caption option"
  causes_of_action :: "coa list option"
  result_pages :: "cls_page list option"

subsection \<open>Search-constrained fields\<close>

text \<open>
  An assignment \<open>result["caption_info"][...] = ...\<close>; it raises \<open>KeyError\<close> when the result
  has no \<open>caption_info\<close>.
\<close>

definition set_caption :: "(caption \<Rightarrow> caption) \<Rightarrow> classification \<Rightarrow> py_error + classification" where
  "set_caption f result =
     (case caption_info result of
        None \<Rightarrow> Inl KeyError
      | Some ci \<Rightarrow> Inr (result\<lparr>caption_info := Some (f ci)\<rparr>))"

text \<open>The block of \<open>verify_search_fields\<close> for \<open>caption_info.document_title\<close> (logging left out).\<close>

definition verify_document_title :: "classification \<Rightarrow> page list \<Rightarrow> py_error + classification" where
  "verify_document_title result pages =
     (let dt = py_get (document_title (py_get (caption_info result)
                 \<lparr>document_title = None, document_title_verified = None,
                  document_title_proposed_value = None\<rparr>)) (TitleObj None None)
      in case dt of
           TitleStr s \<Rightarrow> Inr result
         | TitleObj st pg \<Rightarrow>
             if truthy st then
               (case search_source_text (the st) (py_get pg 1) pages of
                  Inl e \<Rightarrow> Inl e
                | Inr verbatim \<Rightarrow>
                    if truthy verbatim then
                      set_caption (\<lambda>ci. ci\<lparr>document_title := Some (TitleStr (the verbatim)),
                                           document_title_verified := Some True\<rparr>) result
                    else
                      set_caption (\<lambda>ci. ci\<lparr>document_title := Some (TitleStr (the st)),
                                           document_title_proposed_value := Some (the st),
                                           document_title_verified := Some False\<rparr>) result)
             else
               set_caption (\<lambda>ci. ci\<lparr>document_title := Some (TitleStr (py_get st []))\<rparr>) result)"

text \<open>The body of the loop \<open>for coa in result.get("causes_of_action", [])\<close>.\<close>

definition verify_coa_title :: "page list \<Rightarrow> coa \<Rightarrow> py_error + coa" where
  "verify_coa_title pages c =
     (let st = py_get (search_text c) [];
          pg = py_get (coa_page c) 0
      in if st \<noteq> [] \<and> pg > 0 then
           (case search_source_text st pg pages of
              Inl e \<Rightarrow> Inl e
            | Inr verbatim \<Rightarrow>
                if truthy verbatim then
                  Inr (c\<lparr>title := verbatim, title_verified := Some True, search_text := None\<rparr>)
                else
                  Inr (c\<lparr>title := Some st, title_proposed_value := Some st,
                         title_verified := Some False, search_text := None\<rparr>))
         else Inr (c\<lparr>title := Some st, search_text := None\<rparr>))"

text \<open>A loop over a list whose body may raise: the first error ends it.\<close>

fun map_result :: "('a \<Rightarrow> py_error + 'b) \<Rightarrow> 'a list \<Rightarrow> py_error + 'b list" where
  "map_result f [] = Inr []"
| "map_result f (x # xs) =
     (case f x of
        Inl e \<Rightarrow> Inl e
      | Inr y \<Rightarrow> (case map_result f xs of Inl e \<Rightarrow> Inl e | Inr ys \<Rightarrow> Inr (y # ys)))"

definition verify_search_fields :: "classification \<Rightarrow> page list \<Rightarrow> py_error + classification" where
  "verify_search_fields result pages =
     (case verify_document_title result pages of
        Inl e \<Rightarrow> Inl e
      | Inr r1 \<Rightarrow>
          (case causes_of_action r1 of
             None \<Rightarrow> Inr r1
           | Some coas \<Rightarrow>
               (case map_result (verify_coa_title pages) coas of
                  Inl e \<Rightarrow> Inl e
                | Inr coas' \<Rightarrow> Inr (r1\<lparr>causes_of_action := Some coas'\<rparr>))))"

subsection \<open>The footnote index and its validation\<close>

record footnote_row =
  row_fn_number :: int
  row_page :: int
  row_merge_status :: string
  row_fn_text :: string

definition collect_footnotes :: "classification \<Rightarrow> footnote_row list" where
  "collect_footnotes result =
     concat (map (\<lambda>page.
        map (\<lambda>fn. \<lparr>row_fn_number = py_get (fn_number fn) 0,
                   row_page = py_get (page_number page) 0,
                   row_merge_status = py_get (merge_status fn) ''not_applicable'',
                   row_fn_text = py_get (fn_text fn) []\<rparr>)
            (py_get (footnotes page) []))
       (py_get (result_pages result) []))"

text \<open>
  The three messages of the validation, with the numbers they are formatted from:
  \<open>MISSING footnote m (gap before fn n on page p)\<close>,
  \<open>OUT OF ORDER: footnote n on page p (expected e)\<close> and
  \<open>DUPLICATE: footnote n on page p\<close>.
\<close>

datatype issue = Missing int int int | OutOfOrder int int int | Duplicate int int

text \<open>The validation loop, with its variables \<open>seen_numbers\<close> and \<open>expected_num\<close>.\<close>

fun validate :: "footnote_row list \<Rightarrow> int set \<Rightarrow> int \<Rightarrow> issue list" where
  "validate [] seen_numbers expected_num = []"
| "validate (fn # fns) seen_numbers expected_num =
     (let num = row_fn_number fn in
        (if num \<noteq> expected_num then
           (if num > expected_num
            then map (\<lambda>missing. Missing missing num (row_page fn)) [expected_num .. num - 1]
            else [OutOfOrder num (row_page fn) expected_num])
         else [])
        @ (if num \<in> seen_numbers then [Duplicate num (row_page fn)] else [])
        @ validate fns (insert num seen_numbers) (num + 1))"

text \<open>
  Writing the CSV file is left out; \<open>list.sort(key=...)\<close> is stable, as \<open>sort_key\<close> is.
\<close>

definition generate_footnote_index :: "classification \<Rightarrow> issue list" where
  "generate_footnote_index result =
     (let all_footnotes = collect_footnotes result in
      if all_footnotes = [] then []
      else validate (sort_key row_fn_number all_footnotes) {} 1)"

subsection \<open>Paragraph ranges of the causes of action\<close>

definition is_digit :: "char \<Rightarrow> bool" where
  "is_digit c \<longleftrightarrow> c \<in> set ''0123456789''"

text \<open>\<open>int(m.group(1))\<close> on a run of digits.\<close>

definition int_of_digits :: "string \<Rightarrow> int" where
  "int_of_digits ds = foldl (\<lambda>acc c. acc * 10 + (int (of_char c) - 48)) 0 ds"

text \<open>
  \<open>PARAGRAPH_NUM_RE = ^\s*(?:P\s*)?(\d+)\.\s\<close> (with \<open>P\<close> the pilcrow, code point 182) tried
  at the head of a string, the anchor left to the caller: the paragraph number and the
  length of the match.  The classes of the pattern are disjoint, so the greedy match is the
  only one.
\<close>

definition match_paragraph :: "string \<Rightarrow> (int \<times> nat) option" where
  "match_paragraph s =
     (let s1 = dropWhile py_isspace s;
          s2 = (case s1 of [] \<Rightarrow> s1
                | c # r \<Rightarrow> if c = CHR 0xB6 then dropWhile py_isspace r else s1);
          ds = takeWhile is_digit s2;
          s3 = dropWhile is_digit s2
      in if ds = [] then None
         else (case s3 of
                 d # w # rest \<Rightarrow>
                   if d = CHR ''.'' \<and> py_isspace w
                   then Some (int_of_digits ds, length s - length rest) else None
               | _ \<Rightarrow> None))"

text \<open>
  \<open>PARAGRAPH_NUM_RE.finditer(text)\<close> in \<open>MULTILINE\<close> mode: \<open>bol\<close> says that the position is
  the start of the text or follows a newline, \<open>skip\<close> counts the characters of the last
  match that are still to be passed over.
\<close>

fun paragraph_finditer :: "bool \<Rightarrow> nat \<Rightarrow> string \<Rightarrow> int list" where
  "paragraph_finditer bol skip [] = []"
| "paragraph_finditer bol skip (c # cs) =
     (if skip > 0 then paragraph_finditer (c = CHR 0x0A) (skip - 1) cs
      else if bol then
        (case match_paragraph (c # cs) of
           Some (n, len) \<Rightarrow> n # paragraph_finditer (c = CHR 0x0A) (len - 1) cs
         | None \<Rightarrow> paragraph_finditer (c = CHR 0x0A) 0 cs)
      else paragraph_finditer (c = CHR 0x0A) 0 cs)"

definition paragraph_numbers :: "string \<Rightarrow> int set" where
  "paragraph_numbers s = set (paragraph_finditer True 0 s)"

text \<open>
  The dictionary \<open>page_paragraphs\<close>, keyed by page number; a dictionary is an association
  list in insertion order, and \<open>d[k] = v\<close> is \<open>AList.update\<close>.
\<close>

fun page_paragraphs :: "page list \<Rightarrow> (int \<times> int set) list \<Rightarrow> (int \<times> int set) list" where
  "page_paragraphs [] d = d"
| "page_paragraphs (pg # pgs) d =
     (let nums = paragraph_numbers (page_text pg) in
      page_paragraphs pgs (if nums \<noteq> {} then AList.update (number pg) nums d else d))"

definition all_paragraphs :: "page list \<Rightarrow> int set" where
  "all_paragraphs pages = \<Union> (set (map snd (page_paragraphs pages [])))"

text \<open>The body of the loop \<open>for coa in coa_list\<close>.\<close>

definition verify_coa_range :: "int set \<Rightarrow> coa \<Rightarrow> coa" where
  "verify_coa_range paragraphs c =
     (let para_range = py_get (paragraph_range c) \<lparr>range_start = None, range_end = None\<rparr>;
          start = py_get (range_start para_range) 0;
          end = py_get (range_end para_range) 0
      in if start > 0 \<and> end > 0 then
           (let expected = {start .. end};
                missing = expected - paragraphs
            in c\<lparr>paragraph_range_verified := Some (card missing = 0),
                 missing_paragraphs := Some (sorted_list_of_set missing)\<rparr>)
         else c\<lparr>paragraph_range_verified := Some False, missing_paragraphs := Some []\<rparr>)"

definition verify_causes_of_action :: "coa list \<Rightarrow> page list \<Rightarrow> coa list" where
  "verify_causes_of_action coa_list pages =
     (if coa_list = [] then []
      else map (verify_coa_range (all_paragraphs pages)) coa_list)"

section \<open>Merging footnotes: patterns\<close>

text \<open>
  \<open>FN_MARKER_RE = \s*\$\s*\^\{(\d+)\}\s*\$\<close> tried at the head of a string: the footnote
  number and the length of the match.  Whitespace, the dollar sign, the caret, the braces
  and the digits are disjoint classes, so the greedy match is the only one.
\<close>

definition match_marker :: "string \<Rightarrow> (int \<times> nat) option" where
  "match_marker s =
     (case dropWhile py_isspace s of
        [] \<Rightarrow> None
      | d1 # r1 \<Rightarrow>
          if d1 \<noteq> CHR 0x24 then None
          else (case dropWhile py_isspace r1 of
                  h # b # r2 \<Rightarrow>
                    if h \<noteq> CHR 0x5E \<or> b \<noteq> CHR 0x7B \<or> takeWhile is_digit r2 = [] then None
                    else (case dropWhile is_digit r2 of
                            [] \<Rightarrow> None
                          | e # r3 \<Rightarrow>
                              if e \<noteq> CHR 0x7D then None
                              else (case dropWhile py_isspace r3 of
                                      [] \<Rightarrow> None
                                    | d2 # r4 \<Rightarrow>
                                        if d2 = CHR 0x24
                                        then Some (int_of_digits (takeWhile is_digit r2),
                                                   length s - length r4)
                                        else None))
                | _ \<Rightarrow> None))"

text \<open>
  \<open>FN_TEXT_BLOCK_RE.match(line)\<close> with
  \<open>FN_TEXT_BLOCK_RE = ^\s*\$\s*\^\{(\d+)\}\s*\$\s+(.+)$\<close>: the footnote number and group 2.
  After the marker comes a run \<open>w\<close> of whitespace, then \<open>r\<close>.  If \<open>r\<close> is not empty, group 2
  is \<open>r\<close> up to its first newline, which must be the last character if there is one.  If
  \<open>r\<close> is empty, \<open>\s+\<close> gives back one character of \<open>w\<close> (two, before a final newline) to
  \<open>.+\<close>, which does not match a newline.
\<close>

definition match_text_block :: "string \<Rightarrow> (int \<times> string) option" where
  "match_text_block line =
     (case match_marker line of
        None \<Rightarrow> None
      | Some (n, len) \<Rightarrow>
          (let rest = drop len line;
               w = takeWhile py_isspace rest;
               r = dropWhile py_isspace rest
           in if w = [] then None
              else if r \<noteq> [] then
                (let g = takeWhile (\<lambda>c. c \<noteq> CHR 0x0A) r;
                     t = dropWhile (\<lambda>c. c \<noteq> CHR 0x0A) r
                 in if t = [] \<or> t = [CHR 0x0A] then Some (n, g) else None)
              else if 2 \<le> length w \<and> last w \<noteq> CHR 0x0A then Some (n, [last w])
              else if 3 \<le> length w \<and> last w = CHR 0x0A \<and> w ! (length w - 2) \<noteq> CHR 0x0A
                then Some (n, [w ! (length w - 2)])
              else None))"

text \<open>
  The page delimiters \<open>^---\[Start PDF page (\d+)\]---\s*$\<close> and
  \<open>^---\[End PDF page (\d+)\]---\s*$\<close>, given by the text before the digits.
\<close>

definition match_delim :: "string \<Rightarrow> string \<Rightarrow> int option" where
  "match_delim pre line =
     (if \<not> prefix pre line then None
      else (let r = drop (length pre) line;
                ds = takeWhile is_digit r;
                r' = dropWhile is_digit r
            in if ds \<noteq> [] \<and> prefix '']---'' r' \<and> (\<forall>c\<in>set (drop 4 r'). py_isspace c)
               then Some (int_of_digits ds) else None))"

definition PAGE_START_RE :: "string \<Rightarrow> int option" where
  "PAGE_START_RE = match_delim ''---[Start PDF page ''"

definition PAGE_END_RE :: "string \<Rightarrow> int option" where
  "PAGE_END_RE = match_delim ''---[End PDF page ''"

text \<open>
  \<open>FN_MARKER_RE.finditer(line)\<close>, as the list of the footnote numbers matched; \<open>skip\<close>
  counts the characters of the last match that are still to be passed over.
\<close>

fun marker_finditer :: "nat \<Rightarrow> string \<Rightarrow> int list" where
  "marker_finditer skip [] = []"
| "marker_finditer skip (c # cs) =
     (if skip > 0 then marker_finditer (skip - 1) cs
      else (case match_marker (c # cs) of
              Some (n, len) \<Rightarrow> n # marker_finditer (len - 1) cs
            | None \<Rightarrow> marker_finditer 0 cs))"

text \<open>
  \<open>FN_MARKER_RE.sub(repl, line)\<close>; \<open>repl\<close> gets the footnote number and the matched text
  \<open>m.group(0)\<close>.
\<close>

fun marker_sub :: "(int \<Rightarrow> string \<Rightarrow> string) \<Rightarrow> nat \<Rightarrow> string \<Rightarrow> string" where
  "marker_sub repl skip [] = []"
| "marker_sub repl skip (c # cs) =
     (if skip > 0 then marker_sub repl (skip - 1) cs
      else (case match_marker (c # cs) of
              Some (n, len) \<Rightarrow> repl n (take len (c # cs)) @ marker_sub repl (len - 1) cs
            | None \<Rightarrow> c # marker_sub repl 0 cs))"

text \<open>\<open>content.split("\n")\<close> and \<open>"\n".join(parts)\<close>.\<close>

fun py_split_nl :: "string \<Rightarrow> string list" where
  "py_split_nl [] = [[]]"
| "py_split_nl (c # cs) =
     (if c = CHR 0x0A then [] # py_split_nl cs
      else (case py_split_nl cs of
              [] \<Rightarrow> [[c]]
            | l # ls \<Rightarrow> (c # l) # ls))"

fun py_join_nl :: "string list \<Rightarrow> string" where
  "py_join_nl [] = []"
| "py_join_nl [x] = x"
| "py_join_nl (x # y # ys) = x @ CHR 0x0A # py_join_nl (y # ys)"

text \<open>\<open>str(n)\<close> for an integer.\<close>

function digits_of_nat :: "nat \<Rightarrow> string" where
  "digits_of_nat n =
     (if n < 10 then [char_of (48 + n)]
      else digits_of_nat (n div 10) @ [char_of (48 + n mod 10)])"
  by pat_completeness auto
termination
  by (relation "measure id") auto

definition py_str_int :: "int \<Rightarrow> string" where
  "py_str_int n = (if n < 0 then CHR ''-'' # digits_of_nat (nat (- n)) else digits_of_nat (nat n))"

section \<open>Merging footnotes: the location inventory and the text extraction\<close>

text \<open>
  A record of the location inventory; \<open>llm_text\<close> is the key \<open>_llm_text\<close>, \<open>original_page\<close>
  the key \<open>_original_page\<close>, absent until a correction writes it.
\<close>

record fn_location =
  loc_page :: int
  loc_merge_status :: string
  loc_merge_location :: string
  llm_text :: string
  original_page :: "int option"

text \<open>The record that \<open>_extract_fn_inventory\<close> stores for a listed footnote.\<close>

definition location_record :: "int \<Rightarrow> cls_fn \<Rightarrow> fn_location" where
  "location_record pg_num fn =
     \<lparr>loc_page = pg_num,
      loc_merge_status = py_get (merge_status fn) [],
      loc_merge_location = py_get (merge_location fn) [],
      llm_text = py_get (fn_text fn) [],
      original_page = None\<rparr>"

text \<open>The inner and the outer loop of \<open>_extract_fn_inventory\<close>, on the dictionary \<open>d\<close>.\<close>

fun inventory_page :: "int \<Rightarrow> cls_fn list \<Rightarrow> (int \<times> fn_location) list \<Rightarrow> (int \<times> fn_location) list" where
  "inventory_page pg_num [] d = d"
| "inventory_page pg_num (fn # fns) d =
     (let fn_num = py_get (fn_number fn) 0 in
      inventory_page pg_num fns
        (if fn_num > 0 then AList.update fn_num (location_record pg_num fn) d else d))"

fun inventory_pages :: "cls_page list \<Rightarrow> (int \<times> fn_location) list \<Rightarrow> (int \<times> fn_location) list" where
  "inventory_pages [] d = d"
| "inventory_pages (page # pages) d =
     inventory_pages pages
       (inventory_page (py_get (page_number page) 0) (py_get (footnotes page) []) d)"

definition extract_fn_inventory :: "cls_page list \<Rightarrow> (int \<times> fn_location) list" where
  "extract_fn_inventory pages = inventory_pages pages []"

text \<open>The loop of \<open>extract_ocr_footnotes\<close>, on the dictionary \<open>d\<close>.\<close>

fun ocr_footnotes_loop :: "string list \<Rightarrow> (int \<times> string) list \<Rightarrow> (int \<times> string) list" where
  "ocr_footnotes_loop [] d = d"
| "ocr_footnotes_loop (line # lines) d =
     (case match_text_block line of
        None \<Rightarrow> ocr_footnotes_loop lines d
      | Some (fn_num, g) \<Rightarrow> ocr_footnotes_loop lines (AList.update fn_num (py_strip g) d))"

definition extract_ocr_footnotes :: "string list \<Rightarrow> (int \<times> string) list" where
  "extract_ocr_footnotes lines = ocr_footnotes_loop lines []"

section \<open>Merging footnotes: page blocks\<close>

record page_block =
  block_page_number :: int
  start_delim :: string
  block_lines :: "string list"
  end_delim :: string

record split_state =
  preamble :: "string list"
  blocks :: "page_block list"
  current_page :: "int option"
  current_lines :: "string list"
  current_start :: string

text \<open>The body of the loop of \<open>split_into_pages\<close>.\<close>

definition split_step :: "split_state \<Rightarrow> string \<Rightarrow> split_state" where
  "split_step s line =
     (case PAGE_START_RE line of
        Some n \<Rightarrow> s\<lparr>current_page := Some n, current_start := line, current_lines := []\<rparr>
      | None \<Rightarrow>
          (case PAGE_END_RE line of
             Some m \<Rightarrow>
               (case current_page s of
                  Some p \<Rightarrow>
                    s\<lparr>blocks := blocks s @
                         [\<lparr>block_page_number = p, start_delim = current_start s,
                           block_lines = current_lines s, end_delim = line\<rparr>],
                      current_page := None, current_lines := []\<rparr>
                | None \<Rightarrow> s\<lparr>current_page := None, current_lines := []\<rparr>)
           | None \<Rightarrow>
               (case current_page s of
                  Some p \<Rightarrow> s\<lparr>current_lines := current_lines s @ [line]\<rparr>
                | None \<Rightarrow> s\<lparr>preamble := preamble s @ [line]\<rparr>)))"

definition split_into_pages :: "string \<Rightarrow> string list \<times> page_block list" where
  "split_into_pages content =
     (let s = foldl split_step
                \<lparr>preamble = [], blocks = [], current_page = None, current_lines = [],
                 current_start = []\<rparr>
                (py_split_nl content)
      in (preamble s, blocks s))"

section \<open>Merging footnotes: removal of text blocks and inline substitution\<close>

definition is_blank :: "string \<Rightarrow> bool" where
  "is_blank line \<longleftrightarrow> py_strip line = []"

text \<open>The set \<open>fn_line_indices\<close>, as the ascending list of its members.\<close>

definition fn_line_indices :: "string list \<Rightarrow> int set \<Rightarrow> nat list" where
  "fn_line_indices lines fn_numbers_to_remove =
     filter (\<lambda>i. case match_text_block (lines ! i) of
                    None \<Rightarrow> False
                  | Some (n, g) \<Rightarrow> n \<in> fn_numbers_to_remove)
       [0 ..< length lines]"

text \<open>
  The two inner loops: the first line after \<open>i\<close>, and the last line before \<open>i\<close>, that is
  not blank.
\<close>

definition next_content :: "string list \<Rightarrow> nat \<Rightarrow> nat option" where
  "next_content lines i = List.find (\<lambda>j. \<not> is_blank (lines ! j)) [i + 1 ..< length lines]"

definition prev_content :: "string list \<Rightarrow> nat \<Rightarrow> nat option" where
  "prev_content lines i = List.find (\<lambda>j. \<not> is_blank (lines ! j)) (rev [0 ..< i])"

definition in_indices :: "nat option \<Rightarrow> nat list \<Rightarrow> bool" where
  "in_indices j idxs = (case j of None \<Rightarrow> False | Some k \<Rightarrow> k \<in> set idxs)"

definition remove_fn_text_blocks :: "string list \<Rightarrow> int set \<Rightarrow> string list" where
  "remove_fn_text_blocks lines fn_numbers_to_remove =
     (let idxs = fn_line_indices lines fn_numbers_to_remove in
      if idxs = [] then lines
      else map (\<lambda>i. lines ! i)
             (filter (\<lambda>i. \<not> (i \<in> set idxs \<or>
                               (is_blank (lines ! i) \<and>
                                 (in_indices (next_content lines i) idxs \<or>
                                  in_indices (prev_content lines i) idxs))))
                [0 ..< length lines]))"

text \<open>An entry of \<open>page_fns\<close>.\<close>

record page_fn =
  pf_fn_text :: string
  pf_page :: int
  pf_llm_text :: "string option"
  pf_text_source :: string

text \<open>The function \<open>replace_ref\<close> of \<open>merge_refs_inline\<close>, for entries that are dictionaries.\<close>

definition replace_ref :: "(int \<times> page_fn) list \<Rightarrow> int \<Rightarrow> string \<Rightarrow> string" where
  "replace_ref fn_data fn_num group0 =
     (case map_of fn_data fn_num of
        None \<Rightarrow> group0
      | Some entry \<Rightarrow>
          if pf_fn_text entry \<noteq> []
          then '' [FN'' @ py_str_int fn_num @ '': '' @ pf_fn_text entry @ '']''
          else group0)"

definition merge_refs_inline :: "string list \<Rightarrow> (int \<times> page_fn) list \<Rightarrow> string list" where
  "merge_refs_inline lines fn_data = map (marker_sub (replace_ref fn_data) 0) lines"

section \<open>Merging footnotes: the document\<close>

text \<open>The pre-scan for \<open>marker_pages\<close>: \<open>marker_pages.setdefault(fn_num, set()).add(page)\<close>.\<close>

definition add_marker_page :: "int \<Rightarrow> (int \<times> int set) list \<Rightarrow> int \<Rightarrow> (int \<times> int set) list" where
  "add_marker_page pg marker_pages fn_num =
     AList.update fn_num (insert pg (py_get (map_of marker_pages fn_num) {})) marker_pages"

definition scan_marker_pages :: "page_block list \<Rightarrow> (int \<times> int set) list" where
  "scan_marker_pages bs =
     foldl (\<lambda>mp block.
        foldl (\<lambda>mp line. foldl (add_marker_page (block_page_number block)) mp (marker_finditer 0 line))
          mp (block_lines block))
       [] bs"

text \<open>The pre-scan for \<open>ocr_texts\<close>.\<close>

definition scan_ocr_texts :: "page_block list \<Rightarrow> (int \<times> string) list" where
  "scan_ocr_texts bs =
     foldl (\<lambda>ocr_texts block.
        foldl (\<lambda>d (fn_num, fn_text). AList.update fn_num fn_text d) ocr_texts
          (extract_ocr_footnotes (block_lines block)))
       [] bs"

text \<open>The correction of the page attribution, for one record and for the inventory.\<close>

definition correct_entry :: "(int \<times> int set) list \<Rightarrow> int \<Rightarrow> fn_location \<Rightarrow> fn_location" where
  "correct_entry marker_pages fn_num data =
     (case map_of marker_pages fn_num of
        None \<Rightarrow> data
      | Some actual_pages \<Rightarrow>
          (let llm_page = loc_page data in
           if llm_page \<notin> actual_pages
           then data\<lparr>original_page := Some llm_page, loc_page := Min actual_pages\<rparr>
           else data))"

definition correct_attribution ::
    "(int \<times> int set) list \<Rightarrow> (int \<times> fn_location) list \<Rightarrow> (int \<times> fn_location) list" where
  "correct_attribution marker_pages classification_fns =
     map (\<lambda>(fn_num, data). (fn_num, correct_entry marker_pages fn_num data)) classification_fns"

text \<open>Truth value of \<open>classification_fns\<close>: \<open>None\<close> and the empty dictionary are false.\<close>

definition has_inventory :: "(int \<times> fn_location) list option \<Rightarrow> bool" where
  "has_inventory classification_fns =
     (case classification_fns of None \<Rightarrow> False | Some d \<Rightarrow> d \<noteq> [])"

record page_stat =
  stat_page :: int
  stat_fn_numbers :: "int list"
  stat_merged_refs :: "int list"
  stat_unmatched :: "int list"
  stat_no_ocr_text :: "int list"

record doc_state =
  output_parts :: "string list"
  total_found :: nat
  total_merged :: nat
  total_unmatched :: nat
  total_no_ocr_text :: nat
  page_stats :: "page_stat list"

text \<open>The dictionary \<open>page_fns\<close> of a page, with location records and without.\<close>

definition page_fns_classified ::
    "int \<Rightarrow> (int \<times> string) list \<Rightarrow> (int \<times> fn_location) list \<Rightarrow> (int \<times> page_fn) list" where
  "page_fns_classified pg_num ocr_texts classification_fns =
     foldl (\<lambda>page_fns (num, data).
        if loc_page data = pg_num then
          (let ocr_text = py_get (map_of ocr_texts num) [] in
           AList.update num
             \<lparr>pf_fn_text = ocr_text, pf_page = pg_num, pf_llm_text = Some (llm_text data),
              pf_text_source = (if ocr_text \<noteq> [] then ''ocr'' else ''none'')\<rparr> page_fns)
        else page_fns)
       [] classification_fns"

definition page_fns_ocr :: "int \<Rightarrow> string list \<Rightarrow> (int \<times> page_fn) list" where
  "page_fns_ocr pg_num lines =
     map (\<lambda>(num, txt). (num, \<lparr>pf_fn_text = txt, pf_page = pg_num, pf_llm_text = None,
                               pf_text_source = ''ocr''\<rparr>))
       (extract_ocr_footnotes lines)"

text \<open>The body of the loop over the blocks.\<close>

definition process_block ::
    "(int \<times> fn_location) list option \<Rightarrow> (int \<times> string) list \<Rightarrow> doc_state \<Rightarrow> page_block \<Rightarrow> doc_state" where
  "process_block classification_fns ocr_texts s block =
     (let pg_num = block_page_number block;
          lines = block_lines block;
          page_fns = (if has_inventory classification_fns
                      then page_fns_classified pg_num ocr_texts (the classification_fns)
                      else page_fns_ocr pg_num lines);
          no_text = (if has_inventory classification_fns
                     then length (filter (\<lambda>(num, data). loc_page data = pg_num \<and>
                                     py_get (map_of ocr_texts num) [] = [])
                                   (the classification_fns))
                     else 0);
          s1 = s\<lparr>total_no_ocr_text := total_no_ocr_text s + no_text\<rparr>
      in if page_fns \<noteq> [] then
           (let keys = set (map fst page_fns);
                refs_on_page = {fn_num \<in> set (concat (map (marker_finditer 0) lines)). fn_num \<in> keys};
                cleaned = remove_fn_text_blocks lines keys;
                merged = merge_refs_inline cleaned page_fns;
                unmatched_fns = keys - refs_on_page;
                no_ocr = filter (\<lambda>n. pf_fn_text (the (map_of page_fns n)) = []) (map fst page_fns)
            in s1\<lparr>total_found := total_found s1 + length page_fns,
                  total_merged := total_merged s1 + card refs_on_page,
                  total_unmatched := total_unmatched s1 + card unmatched_fns,
                  page_stats := page_stats s1 @
                    [\<lparr>stat_page = pg_num,
                      stat_fn_numbers = sort (map fst page_fns),
                      stat_merged_refs = sorted_list_of_set refs_on_page,
                      stat_unmatched = sorted_list_of_set unmatched_fns,
                      stat_no_ocr_text = sort no_ocr\<rparr>],
                  output_parts := output_parts s1 @
                    [start_delim block, py_join_nl merged, end_delim block]\<rparr>)
         else s1\<lparr>output_parts := output_parts s1 @
                    [start_delim block, py_join_nl lines, end_delim block]\<rparr>)"

record merge_stats =
  stats_source :: string
  stats_total_found :: nat
  stats_total_merged :: nat
  stats_total_unmatched :: nat
  stats_total_no_ocr_text :: nat
  stats_pages_with_footnotes :: nat
  stats_page_details :: "page_stat list"

text \<open>
  \<open>process_document\<close>.  The third component of the result is \<open>classification_fns\<close> as the
  call leaves it: the correction of the page attribution changes the records in place.
\<close>

definition process_document ::
    "string \<Rightarrow> (int \<times> fn_location) list option \<Rightarrow>
       string \<times> merge_stats \<times> (int \<times> fn_location) list option" where
  "process_document content classification_fns =
     (let (pre, bs) = split_into_pages content;
          marker_pages = scan_marker_pages bs;
          ocr_texts = scan_ocr_texts bs;
          corrected = (if has_inventory classification_fns
                       then map_option (correct_attribution marker_pages) classification_fns
                       else classification_fns);
          s0 = \<lparr>output_parts = (if pre \<noteq> [] then [py_join_nl pre] else []),
                total_found = 0, total_merged = 0, total_unmatched = 0,
                total_no_ocr_text = 0, page_stats = []\<rparr>;
          s = foldl (process_block corrected ocr_texts) s0 bs
      in (py_join_nl (output_parts s),
          \<lparr>stats_source = (if has_inventory classification_fns
                            then ''classification+ocr'' else ''ocr_only''),
           stats_total_found = total_found s,
           stats_total_merged = total_merged s,
           stats_total_unmatched = total_unmatched s,
           stats_total_no_ocr_text = total_no_ocr_text s,
           stats_pages_with_footnotes = length (page_stats s),
           stats_page_details = page_stats s\<rparr>,
          corrected))"

section \<open>Auxiliary functions for the statements and proofs\<close>

text \<open>
  \<open>collapse_by P\<close> collapses runs of the characters that satisfy \<open>P\<close>; \<open>steps_len k s\<close>
  is the number of characters of \<open>s\<close> that \<open>k\<close> steps of the index walk pass over.
\<close>

function collapse_by :: "(char \<Rightarrow> bool) \<Rightarrow> string \<Rightarrow> string" where
  "collapse_by P [] = []"
| "collapse_by P (c # cs) =
     (if P c then CHR 0x20 # collapse_by P (dropWhile P cs) else c # collapse_by P cs)"
  by pat_completeness auto
termination
  by (relation "measure (\<lambda>(P, s). length s)") (auto simp: length_dropWhile_le less_Suc_eq_le)

function steps_len :: "nat \<Rightarrow> string \<Rightarrow> nat" where
  "steps_len 0 s = 0"
| "steps_len (Suc k) [] = 0"
| "steps_len (Suc k) (c # cs) =
     (if walk_ws c then Suc (length (takeWhile walk_ws cs)) + steps_len k (dropWhile walk_ws cs)
      else Suc (steps_len k cs))"
  by pat_completeness auto
termination
  by (relation "measure (\<lambda>(k, s). k)") auto

text \<open>The slice that the two walking loops cut out of \<open>source\<close>, on lists.\<close>

definition walk_result :: "string \<Rightarrow> nat \<Rightarrow> nat \<Rightarrow> string" where
  "walk_result source idx m =
     (let s' = dropWhile walk_ws source;
          d = drop (steps_len idx s') s'
      in take (steps_len m d) d)"

text \<open>The numbers reported missing, and the numbers reported as duplicates, in order.\<close>

fun missing_numbers :: "issue list \<Rightarrow> int list" where
  "missing_numbers [] = []"
| "missing_numbers (Missing m n p # rest) = m # missing_numbers rest"
| "missing_numbers (OutOfOrder n p e # rest) = missing_numbers rest"
| "missing_numbers (Duplicate n p # rest) = missing_numbers rest"

fun duplicate_numbers :: "issue list \<Rightarrow> int list" where
  "duplicate_numbers [] = []"
| "duplicate_numbers (Missing m n p # rest) = duplicate_numbers rest"
| "duplicate_numbers (OutOfOrder n p e # rest) = duplicate_numbers rest"
| "duplicate_numbers (Duplicate n p # rest) = n # duplicate_numbers rest"

definition resolved_numbers :: "classification \<Rightarrow> int list" where
  "resolved_numbers result = map row_fn_number (collect_footnotes result)"

text \<open>
  Every footnote entry of the classification output with its number and the record made
  from it, in the order in which the pages list them.
\<close>

definition listed_locations :: "cls_page list \<Rightarrow> (int \<times> fn_location) list" where
  "listed_locations pages =
     concat (map (\<lambda>page. map (\<lambda>fn. (py_get (fn_number fn) 0,
                                        location_record (py_get (page_number page) 0) fn))
                            (py_get (footnotes page) []))
                 pages)"

text \<open>
  The pages of a document on which \<open>FN_MARKER_RE\<close> finds a marker with the number \<open>n\<close>.
\<close>

definition marker_survey :: "page_block list \<Rightarrow> int \<Rightarrow> int set" where
  "marker_survey bs n =
     {block_page_number b |b. b \<in> set bs \<and> n \<in> set (concat (map (marker_finditer 0) (block_lines b)))}"

text \<open>
  The value of the variable \<open>merged\<close> at the end of the body of the loop over the blocks,
  as a function of the block.
\<close>

definition block_merged ::
    "(int \<times> fn_location) list option \<Rightarrow> (int \<times> string) list \<Rightarrow> page_block \<Rightarrow> string list" where
  "block_merged classification_fns ocr_texts block =
     (let page_fns = (if has_inventory classification_fns
                      then page_fns_classified (block_page_number block) ocr_texts
                             (the classification_fns)
                      else page_fns_ocr (block_page_number block) (block_lines block))
      in if page_fns \<noteq> []
         then merge_refs_inline
                (remove_fn_text_blocks (block_lines block) (set (map fst page_fns))) page_fns
         else block_lines block)"

section \<open>Example inputs\<close>

text \<open>A page with the paragraphs 1 to 10, 12 and 13, and a cause of action for the range 10 to 13.\<close>

definition page_example :: page where
  "page_example = \<lparr>number = 1, page_text =
     ''1. a\<newline>2. b\<newline>  3. c\<newline>4. d\<newline>5. e\<newline>6. f\<newline>7. g\<newline>8. h\<newline>9. i\<newline>10. j\<newline>12. l\<newline>13. m\<newline>''\<rparr>"

definition coa_example :: coa where
  "coa_example = \<lparr>coa_number = Some 1, search_text = None, coa_page = Some 1,
     paragraph_range = Some \<lparr>range_start = Some 10, range_end = Some 13\<rparr>,
     title = Some ''Negligence'', title_verified = None, title_proposed_value = None,
     paragraph_range_verified = None, missing_paragraphs = None\<rparr>"

text \<open>Classification results with footnotes only: page by page, the footnote numbers listed.\<close>

definition footnotes_result :: "int list list \<Rightarrow> classification" where
  "footnotes_result nss =
     \<lparr>caption_info = None, causes_of_action = None,
      result_pages = Some (map (\<lambda>(p, ns).
          \<lparr>page_number = Some (int p + 1),
           footnotes = Some (map (\<lambda>n. \<lparr>fn_number = Some n, merge_status = Some ''merged'',
                                          merge_location = None, fn_text = None\<rparr>) ns)\<rparr>)
        (enumerate 0 nss))\<rparr>"

text \<open>
  A one-page store, and a classification result that proposes a document title and three
  cause-of-action titles: one on the page, one fabricated, one without a usable page.
\<close>

definition pages_example :: "page list" where
  "pages_example = [\<lparr>number = 1, page_text =
     ''COMPLAINT FOR\<newline>DAMAGES\<newline>FIRST CAUSE OF ACTION\<newline>Breach of\<newline>  Contract''\<rparr>]"

definition coa_titled :: "string \<Rightarrow> int \<Rightarrow> coa" where
  "coa_titled st pg = \<lparr>coa_number = Some 1, search_text = Some st, coa_page = Some pg,
     paragraph_range = None, title = None, title_verified = None, title_proposed_value = None,
     paragraph_range_verified = None, missing_paragraphs = None\<rparr>"

definition result_example :: classification where
  "result_example = \<lparr>caption_info = Some \<lparr>document_title = Some (TitleObj (Some ''COMPLAINT FOR DAMAGES'') (Some 1)),
        document_title_verified = None, document_title_proposed_value = None\<rparr>,
     causes_of_action = Some [coa_titled ''Breach of Contract'' 1, coa_titled ''Fraud'' 1,
                              coa_titled ''Negligence'' 0],
     result_pages = None\<rparr>"

text \<open>A document of two pages: a reference to footnote 1 on page 1, its text block on page 2.\<close>

definition two_page_document :: string where
  "two_page_document = py_join_nl
     [''---[Start PDF page 1]---'',
      ''See the claim $ ^{1} $ here.'',
      ''---[End PDF page 1]---'',
      ''---[Start PDF page 2]---'',
      ''More text.'',
      '''',
      ''$ ^{1} $ The footnote text.'',
      ''---[End PDF page 2]---'']"

text \<open>
  A classification output in which page 1 lists the footnotes 1 and 0 and page 2 lists
  footnote 1 again.
\<close>

definition listed_example :: "cls_page list" where
  "listed_example =
     [\<lparr>page_number = Some 1, footnotes = Some
         [\<lparr>fn_number = Some 1, merge_status = Some ''merged'', merge_location = None,
           fn_text = Some ''first''\<rparr>,
          \<lparr>fn_number = Some 0, merge_status = None, merge_location = None, fn_text = None\<rparr>]\<rparr>,
      \<lparr>page_number = Some 2, footnotes = Some
         [\<lparr>fn_number = Some 1, merge_status = Some ''partial'', merge_location = None,
           fn_text = Some ''second''\<rparr>]\<rparr>]"

text \<open>
  A document with the pages 5, 8 and 9 that refers to footnote 7 on the pages 8 and 9, and
  a location record that claims footnote 7 for page 5.
\<close>

definition attribution_document :: string where
  "attribution_document = py_join_nl
     [''---[Start PDF page 5]---'',
      ''No reference on this page.'',
      ''---[End PDF page 5]---'',
      ''---[Start PDF page 8]---'',
      ''A first reference $ ^{7} $ in the body.'',
      ''---[End PDF page 8]---'',
      ''---[Start PDF page 9]---'',
      ''A second reference $ ^{7} $ in the body.'',
      ''---[End PDF page 9]---'']"

definition attribution_record :: fn_location where
  "attribution_record = \<lparr>loc_page = 5, loc_merge_status = ''merged'', loc_merge_location = [],
     llm_text = ''proposed text'', original_page = None\<rparr>"

text \<open>
  The same document with the text block of footnote 7 at the foot of page 5.
\<close>

definition attribution_document_block :: string where
  "attribution_document_block = py_join_nl
     [''---[Start PDF page 5]---'',
      ''No reference on this page.'',
      ''$ ^{7} $ The footnote text.'',
      ''---[End PDF page 5]---'',
      ''---[Start PDF page 8]---'',
      ''A first reference $ ^{7} $ in the body.'',
      ''---[End PDF page 8]---'',
      ''---[Start PDF page 9]---'',
      ''A second reference $ ^{7} $ in the body.'',
      ''---[End PDF page 9]---'']"

text \<open>
  A document whose two pages both end with a text block for footnote 1, each page with a
  reference to it.
\<close>

definition repeated_block_document :: string where
  "repeated_block_document = py_join_nl
     [''---[Start PDF page 1]---'',
      ''See $ ^{1} $ here.'',
      ''$ ^{1} $ Early text.'',
      ''---[End PDF page 1]---'',
      ''---[Start PDF page 2]---'',
      ''Again $ ^{1} $ there.'',
      ''$ ^{1} $ Late text.'',
      ''---[End PDF page 2]---'']"

text \<open>
  The same document followed by a third page that refers to footnote 1 and holds no text
  block, and a location record that assigns the footnote to page 1.
\<close>

definition repeated_block_document_tail :: string where
  "repeated_block_document_tail = py_join_nl
     [''---[Start PDF page 1]---'',
      ''See $ ^{1} $ here.'',
      ''$ ^{1} $ Early text.'',
      ''---[End PDF page 1]---'',
      ''---[Start PDF page 2]---'',
      ''Again $ ^{1} $ there.'',
      ''$ ^{1} $ Late text.'',
      ''---[End PDF page 2]---'',
      ''---[Start PDF page 3]---'',
      ''Once more $ ^{1} $ at the end.'',
      ''---[End PDF page 3]---'']"

definition first_page_record :: fn_location where
  "first_page_record = \<lparr>loc_page = 1, loc_merge_status = ''merged'', loc_merge_location = [],
     llm_text = ''proposed text'', original_page = None\<rparr>"

section \<open>The index walk, step by step\<close>

lemma collapse_ws_by: "collapse_ws s = collapse_by py_isspace s"
  by (induction s rule: collapse_ws.induct) auto

lemma skip_ws_eq: "i \<le> length s \<Longrightarrow> skip_ws s i = i + length (takeWhile walk_ws (drop i s))"
proof (induction s i rule: skip_ws.induct)
  case (1 source src_i)
  show ?case
  proof (cases "src_i < length source \<and> walk_ws (source ! src_i)")
    case True
    then have d: "drop src_i source = source ! src_i # drop (Suc src_i) source"
      by (simp add: Cons_nth_drop_Suc)
    from True 1 show ?thesis
      by (subst skip_ws.simps) (simp add: d)
  next
    case False
    show ?thesis
    proof (cases "src_i < length source")
      case True
      then have d: "drop src_i source = source ! src_i # drop (Suc src_i) source"
        by (simp add: Cons_nth_drop_Suc)
      from True False show ?thesis
        by (subst skip_ws.simps) (simp add: d)
    next
      case False
      then show ?thesis using 1(2) by (subst skip_ws.simps) simp
    qed
  qed
qed

lemma steps_len_le: "steps_len k s \<le> length s"
proof (induction k s rule: steps_len.induct)
  case (3 k c cs)
  show ?case
  proof (cases "walk_ws c")
    case True
    have "length (takeWhile walk_ws cs) + length (dropWhile walk_ws cs) = length cs"
      by (metis length_append takeWhile_dropWhile_id)
    with 3 True show ?thesis by simp
  next
    case False
    with 3 show ?thesis by simp
  qed
qed simp_all

lemma steps_len_Nil [simp]: "steps_len k [] = 0"
  by (cases k) simp_all

lemma consume_eq:
  "i \<le> length s \<Longrightarrow> consume s m i c = i + steps_len (m - c) (drop i s)"
proof (induction s m i c rule: consume.induct)
  case (1 source match_len src_i consumed)
  show ?case
  proof (cases "consumed < match_len \<and> src_i < length source")
    case False
    then show ?thesis
      using 1(3) by (subst consume.simps) (auto simp: not_less)
  next
    case True
    then have d: "drop src_i source = source ! src_i # drop (Suc src_i) source"
      by (simp add: Cons_nth_drop_Suc)
    from True obtain k where k: "match_len - consumed = Suc k" "match_len - Suc consumed = k"
      by (metis Suc_diff_Suc)
    show ?thesis
    proof (cases "walk_ws (source ! src_i)")
      case w: True
      have sk: "skip_ws source src_i = Suc src_i + length (takeWhile walk_ws (drop (Suc src_i) source))"
        using True w by (simp add: skip_ws_eq d)
      have le: "skip_ws source src_i \<le> length source"
        using True by (simp add: skip_ws_eq) (metis add.commute length_drop length_takeWhile_le le_diff_conv2 less_imp_le_nat)
      have dd: "drop (skip_ws source src_i) source = dropWhile walk_ws (drop (Suc src_i) source)"
        unfolding sk by (metis add.commute drop_drop dropWhile_eq_drop)
      note IH = 1(1)[OF True w le, unfolded dd]
      from IH True w show ?thesis
        by (subst consume.simps) (simp add: d k sk)
    next
      case w: False
      from 1(2)[OF True w] True w show ?thesis
        by (subst consume.simps) (simp add: d k)
    qed
  qed
qed

lemma advance_eq:
  "i \<le> length s \<Longrightarrow> advance s idx i n =
     (if idx - n \<le> length (collapse_by walk_ws (drop i s))
      then Inr (i + steps_len (idx - n) (drop i s)) else Inl IndexError)"
proof (induction s idx i n rule: advance.induct)
  case (1 source idx src_i norm_i)
  show ?case
  proof (cases "norm_i < idx")
    case False
    then show ?thesis by (subst advance.simps) simp
  next
    case lt: True
    then obtain k where k: "idx - norm_i = Suc k" "idx - Suc norm_i = k"
      by (metis Suc_diff_Suc)
    show ?thesis
    proof (cases "length source \<le> src_i")
      case True
      then show ?thesis using lt k by (subst advance.simps) simp
    next
      case False
      then have d: "drop src_i source = source ! src_i # drop (Suc src_i) source"
        by (simp add: Cons_nth_drop_Suc)
      show ?thesis
      proof (cases "walk_ws (source ! src_i)")
        case w: True
        have sk: "skip_ws source src_i = Suc src_i + length (takeWhile walk_ws (drop (Suc src_i) source))"
          using False w by (simp add: skip_ws_eq d)
        have le: "skip_ws source src_i \<le> length source"
          using False by (simp add: skip_ws_eq) (metis add.commute length_drop length_takeWhile_le le_diff_conv2 less_imp_le_nat not_le)
        have dd: "drop (skip_ws source src_i) source = dropWhile walk_ws (drop (Suc src_i) source)"
          unfolding sk by (metis add.commute drop_drop dropWhile_eq_drop)
        note IH = 1(1)[OF lt False w le, unfolded dd]
        from IH lt False w show ?thesis
          by (subst advance.simps) (simp add: d k sk)
      next
        case w: False
        from 1(2)[OF lt False w] lt False w show ?thesis
          by (subst advance.simps) (simp add: d k)
      qed
    qed
  qed
qed

lemma collapse_by_dropWhile_le:
  "length (collapse_by Q (dropWhile Q s)) \<le> length (collapse_by Q s)"
  by (cases s) auto

lemma collapse_by_mono:
  assumes PQ: "\<And>c. P c \<Longrightarrow> Q c"
  shows "length (collapse_by Q s) \<le> length (collapse_by P s)"
proof (induction s rule: length_induct)
  case (1 s)
  show ?case
  proof (cases s)
    case Nil
    then show ?thesis by simp
  next
    case (Cons c cs)
    have IHcs: "length (collapse_by Q cs) \<le> length (collapse_by P cs)"
      using 1 Cons by simp
    show ?thesis
    proof (cases "P c")
      case True
      then have q: "Q c" by (rule PQ)
      let ?u = "dropWhile P cs"
      have "length ?u < length s" using Cons by (simp add: length_dropWhile_le less_Suc_eq_le)
      then have IHu: "length (collapse_by Q ?u) \<le> length (collapse_by P ?u)"
        using 1 by blast
      have "dropWhile Q cs = dropWhile Q ?u"
        using PQ by (induction cs) auto
      then have "length (collapse_by Q (dropWhile Q cs)) \<le> length (collapse_by Q ?u)"
        using collapse_by_dropWhile_le by metis
      with IHu True q Cons show ?thesis by simp
    next
      case False
      show ?thesis
      proof (cases "Q c")
        case True
        have "length (collapse_by Q (dropWhile Q cs)) \<le> length (collapse_by Q cs)"
          by (rule collapse_by_dropWhile_le)
        with IHcs True False Cons show ?thesis by simp
      next
        case q: False
        with IHcs False Cons show ?thesis by simp
      qed
    qed
  qed
qed

lemma walk_ws_isspace: "walk_ws c \<Longrightarrow> py_isspace c"
  by (auto simp: walk_ws_def py_isspace_def)

lemma collapse_by_no_lead:
  "P (CHR 0x20) \<Longrightarrow> s = [] \<or> \<not> P (hd s) \<Longrightarrow> dropWhile P (collapse_by P s) = collapse_by P s"
  by (cases s) auto

lemma dropWhile_collapse_by:
  "P (CHR 0x20) \<Longrightarrow> dropWhile P (collapse_by P s) = collapse_by P (dropWhile P s)"
proof (cases s)
  case Nil
  then show ?thesis by simp
next
  case (Cons c cs)
  assume sp: "P (CHR 0x20)"
  show ?thesis
  proof (cases "P c")
    case True
    have "dropWhile P cs = [] \<or> \<not> P (hd (dropWhile P cs))"
      by (metis hd_dropWhile)
    from collapse_by_no_lead[OF sp this] True Cons sp show ?thesis by simp
  next
    case False
    with Cons show ?thesis by simp
  qed
qed

lemma prefix_rev_dropWhile_rev: "prefix (rev (dropWhile P (rev y))) y"
  by (metis prefix_def rev_append rev_rev_ident takeWhile_dropWhile_id)

lemma py_isspace_space [simp]: "py_isspace (CHR 0x20)"
  by (simp add: py_isspace_def)

lemma walk_ws_space [simp]: "walk_ws (CHR 0x20)"
  by (simp add: walk_ws_def)

lemma normalize_prefix:
  "prefix (normalize s) (collapse_by py_isspace (dropWhile py_isspace s))"
  unfolding normalize_def py_strip_def collapse_ws_by
  by (simp add: dropWhile_collapse_by prefix_rev_dropWhile_rev)

lemma dropWhile_isspace_walk:
  "dropWhile py_isspace s = dropWhile py_isspace (dropWhile walk_ws s)"
  by (induction s) (auto dest: walk_ws_isspace)

lemma normalize_length_le:
  "length (normalize s) \<le> length (collapse_by walk_ws (dropWhile walk_ws s))"
proof -
  let ?t = "dropWhile walk_ws s"
  have "length (normalize s) \<le> length (collapse_by py_isspace (dropWhile py_isspace s))"
    using normalize_prefix by (rule prefix_length_le)
  also have "\<dots> = length (collapse_by py_isspace (dropWhile py_isspace ?t))"
    using dropWhile_isspace_walk by simp
  also have "\<dots> \<le> length (collapse_by py_isspace ?t)"
    by (rule collapse_by_dropWhile_le)
  also have "\<dots> \<le> length (collapse_by walk_ws ?t)"
    by (rule collapse_by_mono) (rule walk_ws_isspace)
  finally show ?thesis .
qed

lemma py_find_Some:
  "py_find h n = Some i \<Longrightarrow> i + length n \<le> length h \<and> take (length n) (drop i h) = n"
proof (induction h arbitrary: i)
  case Nil
  then show ?case by (auto split: if_splits)
next
  case (Cons a h)
  show ?case
  proof (cases "prefix n (a # h)")
    case True
    with Cons.prems have "i = 0" by simp
    with True show ?thesis
      by (metis add_0 append_eq_conv_conj drop0 prefix_def prefix_length_le)
  next
    case False
    with Cons.prems obtain j where j: "py_find h n = Some j" "i = Suc j" by auto
    from Cons.IH[OF j(1)] j(2) show ?thesis by simp
  qed
qed

lemma py_find_None: "py_find h n = None \<longleftrightarrow> \<not> sublist n h"
proof (induction h)
  case Nil
  then show ?case by auto
next
  case (Cons a h)
  then show ?case
    by (auto simp: sublist_Cons_right)
qed

lemma skip_ws_0: "skip_ws s 0 = length (takeWhile walk_ws s)"
  using skip_ws_eq[of 0 s] by simp

lemma drop_skip_ws_0: "drop (skip_ws s 0) s = dropWhile walk_ws s"
  by (simp add: skip_ws_0 dropWhile_eq_drop)

lemma advance_ok:
  assumes "py_find (normalize source) needle = Some idx" "needle \<noteq> []"
  shows "advance source idx (skip_ws source 0) 0 =
           Inr (skip_ws source 0 + steps_len idx (dropWhile walk_ws source))"
proof -
  from py_find_Some[OF assms(1)] assms(2) have "idx \<le> length (normalize source)"
    by simp
  with normalize_length_le[of source]
  have le: "idx \<le> length (collapse_by walk_ws (dropWhile walk_ws source))" by simp
  have "skip_ws source 0 \<le> length source"
    by (simp add: skip_ws_0 length_takeWhile_le)
  from advance_eq[OF this, of idx 0] le show ?thesis
    by (simp add: drop_skip_ws_0)
qed

lemma search_never_raises: "search_source_text st p pages \<noteq> Inl e"
  unfolding search_source_text_def
  by (auto simp: Let_def advance_ok split: option.splits sum.splits)

lemma dropWhile_takeWhile_append:
  "dropWhile P (takeWhile P xs @ ys) = dropWhile P ys"
  by (induction xs) auto

lemma hd_dropWhile_not: "dropWhile P xs = [] \<or> \<not> P (hd (dropWhile P xs))"
  by (metis hd_dropWhile)

lemma dropWhile_take_clean:
  "s = [] \<or> \<not> P (hd s) \<Longrightarrow> dropWhile P (take n s) = take n s"
  by (cases s; cases n) auto

lemma collapse_take_steps:
  "collapse_by walk_ws (take (steps_len k s) s) = take k (collapse_by walk_ws s)"
proof (induction k s rule: steps_len.induct)
  case (3 k c cs)
  show ?case
  proof (cases "walk_ws c")
    case True
    let ?tw = "takeWhile walk_ws cs" and ?dw = "dropWhile walk_ws cs"
    have "take (length ?tw + steps_len k ?dw) cs = ?tw @ take (steps_len k ?dw) ?dw"
      by (metis append_eq_conv_conj takeWhile_dropWhile_id take_add)
    moreover have "dropWhile walk_ws (?tw @ take (steps_len k ?dw) ?dw) = take (steps_len k ?dw) ?dw"
      using dropWhile_take_clean[of "dropWhile walk_ws cs" walk_ws] hd_dropWhile_not[of walk_ws cs]
      by (simp add: dropWhile_takeWhile_append)
    ultimately show ?thesis using 3 True by simp
  next
    case False
    with 3 show ?thesis by simp
  qed
qed simp_all

lemma collapse_drop_steps:
  "collapse_by walk_ws (drop (steps_len k s) s) = drop k (collapse_by walk_ws s)"
proof (induction k s rule: steps_len.induct)
  case (3 k c cs)
  show ?case
  proof (cases "walk_ws c")
    case True
    let ?tw = "takeWhile walk_ws cs" and ?dw = "dropWhile walk_ws cs"
    have "drop (length ?tw + steps_len k ?dw) cs = drop (steps_len k ?dw) ?dw"
      by (metis add.commute drop_drop dropWhile_eq_drop)
    with 3 True show ?thesis by simp
  next
    case False
    with 3 show ?thesis by simp
  qed
qed simp_all




lemma slice_eq: "a \<le> b \<Longrightarrow> slice s a b = take (b - a) (drop a s)"
  by (simp add: slice_def drop_take)

lemma search_walk:
  assumes f: "py_find (normalize source) needle = Some idx" and ne: "needle \<noteq> []"
  shows "(case advance source idx (skip_ws source 0) 0 of
            Inl e \<Rightarrow> Inl e
          | Inr match_start \<Rightarrow>
              Inr (Some (slice source match_start
                     (consume source (length needle) match_start 0))))
         = (Inr (Some (walk_result source idx (length needle))) :: py_error + string option)"
proof -
  let ?s' = "dropWhile walk_ws source"
  let ?ms = "skip_ws source 0 + steps_len idx ?s'"
  have ms_le: "?ms \<le> length source"
    using steps_len_le[of idx ?s']
    by (simp add: skip_ws_0) (metis length_append takeWhile_dropWhile_id nat_add_left_cancel_le)
  have d: "drop ?ms source = drop (steps_len idx ?s') ?s'"
    by (metis add.commute drop_drop drop_skip_ws_0)
  have c: "consume source (length needle) ?ms 0 = ?ms + steps_len (length needle) (drop ?ms source)"
    using consume_eq[OF ms_le, of "length needle" 0] by simp
  have "slice source ?ms (consume source (length needle) ?ms 0) = walk_result source idx (length needle)"
    unfolding c by (simp add: slice_eq walk_result_def Let_def d)
  then show ?thesis
    by (simp add: advance_ok[OF f ne])
qed

lemma search_source_text_eq:
  "search_source_text st p pages =
     (if st = [] \<or> py_strip st = [] then Inr None
      else case find_page p pages of
        None \<Rightarrow> Inr None
      | Some target_page \<Rightarrow>
          (if normalize st = [] then Inr None
           else case py_find (normalize (page_text target_page)) (normalize st) of
                  None \<Rightarrow> Inr None
                | Some idx \<Rightarrow> Inr (Some (walk_result (page_text target_page) idx
                                         (length (normalize st))))))"
  unfolding search_source_text_def
  by (auto simp: Let_def search_walk split: option.splits)


lemma walk_result_nonempty:
  assumes f: "py_find (normalize source) needle = Some idx" and ne: "needle \<noteq> []"
  shows "walk_result source idx (length needle) \<noteq> []"
proof
  assume e: "walk_result source idx (length needle) = []"
  let ?s' = "dropWhile walk_ws source"
  let ?d = "drop (steps_len idx ?s') ?s'"
  have c: "collapse_by walk_ws (take (steps_len (length needle) ?d) ?d) = take (length needle) (drop idx (collapse_by walk_ws ?s'))"
    by (simp add: collapse_take_steps collapse_drop_steps)
  from e have "take (steps_len (length needle) ?d) ?d = []"
    unfolding walk_result_def Let_def .
  then have "collapse_by walk_ws (take (steps_len (length needle) ?d) ?d) = []"
    by (simp only: collapse_by.simps)
  with c have "take (length needle) (drop idx (collapse_by walk_ws ?s')) = []"
    by simp
  moreover have "idx < length (collapse_by walk_ws ?s')"
    using py_find_Some[OF f] ne normalize_length_le[of source]
    by (cases needle) auto
  ultimately show False using ne by simp
qed

lemma py_strip_Nil_normalize: "py_strip s = [] \<Longrightarrow> normalize s = []"
proof -
  assume "py_strip s = []"
  then have "dropWhile py_isspace (rev (dropWhile py_isspace s)) = []"
    by (simp add: py_strip_def)
  then have "dropWhile py_isspace s = []"
    by (metis dropWhile_eq_Nil_conv hd_dropWhile hd_in_set set_rev)
  with normalize_prefix[of s] show ?thesis by simp
qed

lemma find_page_None: "find_page p pages = None \<longleftrightarrow> p \<notin> number ` set pages"
  by (induction pages) auto

lemma find_page_Some: "find_page p pages = Some pg \<Longrightarrow> number pg = p \<and> pg \<in> set pages"
  by (induction pages) (auto split: if_splits)














section \<open>Claims about the search function\<close>

text \<open>
  Claim C8.  \<open>search_source_text\<close> never raises.  It returns \<open>None\<close> exactly when the
  candidate is empty or normalizes to the empty string, or no page numbered \<open>p\<close> is in the
  store, or the normalized candidate is not a contiguous part of the normalized text of the
  page numbered \<open>p\<close> (the first such page of the store).  Its result is the result of the
  same search on the store that holds that one page only, so no other page is consulted.
\<close>

theorem search_not_found_iff:
  "(\<forall>e. search_source_text candidate p pages \<noteq> Inl e) \<and>
   (search_source_text candidate p pages = Inr None \<longleftrightarrow>
      candidate = [] \<or> normalize candidate = [] \<or> p \<notin> number ` set pages \<or>
      (\<exists>pg. find_page p pages = Some pg \<and>
            \<not> sublist (normalize candidate) (normalize (page_text pg)))) \<and>
   search_source_text candidate p pages =
     (case find_page p pages of None \<Rightarrow> Inr None
      | Some pg \<Rightarrow> search_source_text candidate p [pg])"
proof (intro conjI)
  show "\<forall>e. search_source_text candidate p pages \<noteq> Inl e"
    by (simp add: search_never_raises)
  show "search_source_text candidate p pages = Inr None \<longleftrightarrow>
      candidate = [] \<or> normalize candidate = [] \<or> p \<notin> number ` set pages \<or>
      (\<exists>pg. find_page p pages = Some pg \<and>
            \<not> sublist (normalize candidate) (normalize (page_text pg)))"
    unfolding search_source_text_eq
    by (auto simp: py_strip_Nil_normalize find_page_None[symmetric] py_find_None[symmetric]
             split: option.splits)
  show "search_source_text candidate p pages =
     (case find_page p pages of None \<Rightarrow> Inr None
      | Some pg \<Rightarrow> search_source_text candidate p [pg])"
    unfolding search_source_text_eq
    by (auto dest: find_page_Some split: option.splits)
qed

lemma normalize_alpha_beta: "normalize ''alpha beta'' = ''alpha beta''" by code_simp
lemma normalize_gamma: "normalize ''gamma'' = ''gamma''" by code_simp

text \<open>
  The candidate stands verbatim on page 2: searched against page 3 it is not found, searched
  against page 2 it is.
\<close>

theorem search_not_found_iff_witness:
  "search_source_text ''alpha beta'' 3
     [\<lparr>number = 2, page_text = ''alpha beta''\<rparr>, \<lparr>number = 3, page_text = ''gamma''\<rparr>] = Inr None
   \<and> search_source_text ''alpha beta'' 2
     [\<lparr>number = 2, page_text = ''alpha beta''\<rparr>, \<lparr>number = 3, page_text = ''gamma''\<rparr>] \<noteq> Inr None"
  using search_not_found_iff[of "''alpha beta''" 3
     "[\<lparr>number = 2, page_text = ''alpha beta''\<rparr>, \<lparr>number = 3, page_text = ''gamma''\<rparr>]",
     THEN conjunct2, THEN conjunct1]
    search_not_found_iff[of "''alpha beta''" 2
     "[\<lparr>number = 2, page_text = ''alpha beta''\<rparr>, \<lparr>number = 3, page_text = ''gamma''\<rparr>]",
     THEN conjunct2, THEN conjunct1]
  by (simp add: normalize_alpha_beta normalize_gamma sublist_code(3))




text \<open>The example of the specification: line breaks of the page are kept.\<close>

lemma search_hello_world:
  "search_source_text ''hello   world'' 1 [\<lparr>number = 1, page_text = ''hello\<newline>world''\<rparr>]
     = Inr (Some ''hello\<newline>world'')"
  by code_simp

lemma set_update_fresh:
  "k \<notin> fst ` set al \<Longrightarrow> set (AList.update k v al) = insert (k, v) (set al)"
  by (induction al) auto

lemma page_paragraphs_union:
  "distinct (map number pages) \<Longrightarrow> (\<forall>pg\<in>set pages. number pg \<notin> fst ` set d) \<Longrightarrow>
   \<Union> (snd ` set (page_paragraphs pages d))
     = \<Union> (snd ` set d) \<union> (\<Union>pg\<in>set pages. paragraph_numbers (page_text pg))"
proof (induction pages arbitrary: d)
  case Nil
  then show ?case by simp
next
  case (Cons pg pgs)
  let ?nums = "paragraph_numbers (page_text pg)"
  let ?d' = "if ?nums \<noteq> {} then AList.update (number pg) ?nums d else d"
  have fresh: "number pg \<notin> fst ` set d" using Cons.prems by simp
  have keys: "fst ` set ?d' \<subseteq> insert (number pg) (fst ` set d)"
    by (auto simp: dom_update)
  have "\<forall>p\<in>set pgs. number p \<notin> fst ` set ?d'"
  proof
    fix p assume p: "p \<in> set pgs"
    then have "number p \<noteq> number pg" using Cons.prems(1) by (auto simp: image_iff)
    moreover have "number p \<notin> fst ` set d" using Cons.prems(2) p by simp
    ultimately show "number p \<notin> fst ` set ?d'" using keys by blast
  qed
  moreover have "distinct (map number pgs)" using Cons.prems(1) by simp
  ultimately have IH: "\<Union> (snd ` set (page_paragraphs pgs ?d'))
     = \<Union> (snd ` set ?d') \<union> (\<Union>p\<in>set pgs. paragraph_numbers (page_text p))"
    by (rule Cons.IH[rotated])
  have "\<Union> (snd ` set ?d') = \<Union> (snd ` set d) \<union> ?nums"
    using fresh by (auto simp: set_update_fresh)
  with IH show ?case by (auto simp: Let_def)
qed

lemma all_paragraphs_distinct:
  "distinct (map number pages) \<Longrightarrow>
   all_paragraphs pages = (\<Union>pg\<in>set pages. paragraph_numbers (page_text pg))"
  using page_paragraphs_union[of pages "[]"] by (simp add: all_paragraphs_def)

lemma verify_coa_range_fields:
  "verify_coa_range P c =
     (let r = py_get (paragraph_range c) \<lparr>range_start = None, range_end = None\<rparr>;
          s = py_get (range_start r) 0; e = py_get (range_end r) 0
      in if s > 0 \<and> e > 0
         then c\<lparr>paragraph_range_verified := Some ({s..e} - P = {}),
                missing_paragraphs := Some (sorted_list_of_set ({s..e} - P))\<rparr>
         else c\<lparr>paragraph_range_verified := Some False, missing_paragraphs := Some []\<rparr>)"
  by (simp add: verify_coa_range_def Let_def)

section \<open>Claims about the paragraph ranges\<close>

text \<open>
  Claim C6.  For every cause-of-action candidate with \<open>start > 0\<close> and \<open>end > 0\<close> the
  verifier takes the inclusive range \<open>{start..end}\<close>, subtracts the pooled set of paragraph
  numbers, sets \<open>paragraph_range_verified\<close> to true exactly when nothing remains, and
  reports the remainder in ascending order as \<open>missing_paragraphs\<close>; with a bound that is
  not positive (or absent) the candidate is unverified with an empty list.  The pooled set
  is the union of the paragraph numbers scanned from all pages, page numbers being distinct
  as the page store has them.
\<close>

theorem verify_causes_of_action_range:
  fixes coa_list :: "coa list" and pages :: "page list"
  defines "vs \<equiv> verify_causes_of_action coa_list pages"
  shows "(distinct (map number pages) \<longrightarrow>
            all_paragraphs pages = (\<Union>pg\<in>set pages. paragraph_numbers (page_text pg))) \<and>
         length vs = length coa_list \<and>
         (\<forall>i<length coa_list.
            let r = py_get (paragraph_range (coa_list ! i)) \<lparr>range_start = None, range_end = None\<rparr>;
                s = py_get (range_start r) 0;
                e = py_get (range_end r) 0;
                missing = {s..e} - all_paragraphs pages
            in (s > 0 \<and> e > 0 \<longrightarrow>
                  paragraph_range_verified (vs ! i) = Some (missing = {}) \<and>
                  (\<exists>ms. missing_paragraphs (vs ! i) = Some ms \<and>
                        sorted ms \<and> distinct ms \<and> set ms = missing)) \<and>
               (\<not> (s > 0 \<and> e > 0) \<longrightarrow>
                  paragraph_range_verified (vs ! i) = Some False \<and>
                  missing_paragraphs (vs ! i) = Some []))"
proof (intro conjI allI impI)
  assume "distinct (map number pages)"
  then show "all_paragraphs pages = (\<Union>pg\<in>set pages. paragraph_numbers (page_text pg))"
    by (rule all_paragraphs_distinct)
next
  show "length vs = length coa_list"
    by (simp add: vs_def verify_causes_of_action_def)
next
  fix i assume i: "i < length coa_list"
  then have "vs ! i = verify_coa_range (all_paragraphs pages) (coa_list ! i)"
    by (auto simp: vs_def verify_causes_of_action_def)
  then show "let r = py_get (paragraph_range (coa_list ! i)) \<lparr>range_start = None, range_end = None\<rparr>;
                s = py_get (range_start r) 0;
                e = py_get (range_end r) 0;
                missing = {s..e} - all_paragraphs pages
            in (s > 0 \<and> e > 0 \<longrightarrow>
                  paragraph_range_verified (vs ! i) = Some (missing = {}) \<and>
                  (\<exists>ms. missing_paragraphs (vs ! i) = Some ms \<and>
                        sorted ms \<and> distinct ms \<and> set ms = missing)) \<and>
               (\<not> (s > 0 \<and> e > 0) \<longrightarrow>
                  paragraph_range_verified (vs ! i) = Some False \<and>
                  missing_paragraphs (vs ! i) = Some [])"
    by (simp add: verify_coa_range_fields Let_def)
qed

lemma paragraph_numbers_example:
  "paragraph_numbers (page_text page_example) = {1, 2, 3, 4, 5, 6, 7, 8, 9, 10, 12, 13}"
  unfolding page_example_def by code_simp

lemma all_paragraphs_example:
  "all_paragraphs [page_example] = {1, 2, 3, 4, 5, 6, 7, 8, 9, 10, 12, 13}"
  by (simp add: all_paragraphs_def paragraph_numbers_example Let_def)

lemma missing_example: "{10..13} - {1, 2, 3, 4, 5, 6, 7, 8, 9, 10, 12, 13} = {11::int}"
  by auto

text \<open>Paragraphs 1 to 10, 12 and 13 observed, range 10 to 13: unverified, 11 missing.\<close>

theorem verify_causes_of_action_range_witness:
  "paragraph_range_verified (verify_causes_of_action [coa_example] [page_example] ! 0) = Some False \<and>
   missing_paragraphs (verify_causes_of_action [coa_example] [page_example] ! 0) = Some [11]"
proof -
  have pr: "paragraph_range coa_example = Some \<lparr>range_start = Some 10, range_end = Some 13\<rparr>"
    by (simp add: coa_example_def)
  from verify_causes_of_action_range[of "[page_example]" "[coa_example]",
         THEN conjunct2, THEN conjunct2, rule_format, of 0]
  have "paragraph_range_verified (verify_causes_of_action [coa_example] [page_example] ! 0)
          = Some (({10..13} - all_paragraphs [page_example]) = {}) \<and>
        (\<exists>ms. missing_paragraphs (verify_causes_of_action [coa_example] [page_example] ! 0) = Some ms \<and>
           sorted ms \<and> distinct ms \<and> set ms = {10..13} - all_paragraphs [page_example])"
    by (simp add: pr py_get_def Let_def)
  then obtain ms where v: "paragraph_range_verified (verify_causes_of_action [coa_example] [page_example] ! 0) = Some False"
    and ms: "missing_paragraphs (verify_causes_of_action [coa_example] [page_example] ! 0) = Some ms"
      "sorted ms" "distinct ms" "set ms = {11}"
    by (auto simp: all_paragraphs_example missing_example)
  from ms(3,4) have "ms = [11]"
    by (cases ms) (auto simp: insert_eq_iff dest!: subset_singletonD)
  with v ms(1) show ?thesis by simp
qed

section \<open>Claims about the footnote index\<close>

lemma missing_numbers_append [simp]:
  "missing_numbers (a @ b) = missing_numbers a @ missing_numbers b"
  by (induction a rule: missing_numbers.induct) auto

lemma duplicate_numbers_append [simp]:
  "duplicate_numbers (a @ b) = duplicate_numbers a @ duplicate_numbers b"
  by (induction a rule: duplicate_numbers.induct) auto

lemma missing_numbers_map [simp]:
  "missing_numbers (map (\<lambda>m. Missing m n p) ms) = ms"
  by (induction ms) auto

lemma duplicate_numbers_map [simp]:
  "duplicate_numbers (map (\<lambda>m. Missing m n p) ms) = []"
  by (induction ms) auto

lemma validate_duplicates:
  "count_list (duplicate_numbers (validate fns seen e)) n =
     (if n \<in> seen then count_list (map row_fn_number fns) n
      else count_list (map row_fn_number fns) n - 1)"
  by (induction fns arbitrary: seen e) (auto simp: Let_def)

lemma validate_missing_step:
  "missing_numbers (validate (f # fs) seen e) =
     [e .. row_fn_number f - 1] @ missing_numbers (validate fs (insert (row_fn_number f) seen) (row_fn_number f + 1))"
  by (auto simp: Let_def)

lemma filter_upto_last: "e \<le> x + 1 \<Longrightarrow> [i \<leftarrow> [e..x]. i \<noteq> x] = [e..x - 1]"
proof (cases "e \<le> x")
  case True
  then have "[e..x] = [e..x - 1] @ [x]" by (simp add: upto_rec2)
  then show ?thesis by (auto simp: filter_id_conv)
next
  case False
  then show ?thesis by simp
qed

lemma validate_missing:
  "sorted (map row_fn_number fns) \<Longrightarrow> fns \<noteq> [] \<Longrightarrow>
   \<forall>x\<in>set (map row_fn_number fns). e - 1 \<le> x \<Longrightarrow>
   missing_numbers (validate fns seen e) =
     [i \<leftarrow> [e .. last (map row_fn_number fns)]. i \<notin> set (map row_fn_number fns)]"
proof (induction fns arbitrary: seen e)
  case Nil
  then show ?case by simp
next
  case (Cons f fs)
  let ?x = "row_fn_number f"
  let ?ns = "map row_fn_number fs"
  have ex: "e \<le> ?x + 1" using Cons.prems(3) by simp
  show ?case
  proof (cases "fs = []")
    case True
    then show ?thesis
      using filter_upto_last[OF ex] by (simp add: validate_missing_step del: validate.simps(2))
  next
    case False
    have srt: "sorted ?ns" and ge: "\<forall>y\<in>set ?ns. ?x \<le> y"
      using Cons.prems(1) by auto
    let ?L = "last ?ns"
    have L: "?L \<in> set ?ns" by (metis False last_in_set map_is_Nil_conv)
    then have xL: "?x \<le> ?L" using ge by blast
    have IH: "missing_numbers (validate fs (insert ?x seen) (?x + 1))
                = [i \<leftarrow> [?x + 1 .. ?L]. i \<notin> set ?ns]"
      using Cons.IH[OF srt False, of "?x + 1" "insert ?x seen"] ge by simp
    have a: "[i \<leftarrow> [e .. ?x - 1]. i \<notin> set (?x # ?ns)] = [e .. ?x - 1]"
      using ge by (auto simp: filter_id_conv)
    have b: "[i \<leftarrow> [?x + 1 .. ?L]. i \<notin> set (?x # ?ns)] = [i \<leftarrow> [?x + 1 .. ?L]. i \<notin> set ?ns]"
      by (rule filter_cong) auto
    have "[i \<leftarrow> [e .. ?L]. i \<notin> set (?x # ?ns)] = [e .. ?x - 1] @ [i \<leftarrow> [?x + 1 .. ?L]. i \<notin> set ?ns]"
    proof (cases "e \<le> ?x")
      case True
      have split: "[e .. ?L] = [e .. ?x - 1] @ ?x # [?x + 1 .. ?L]"
        by (rule upto_split3[OF True xL])
      show ?thesis unfolding split using a b by simp
    next
      case False
      with ex have "e = ?x + 1" by simp
      then show ?thesis using b by simp
    qed
    with IH False show ?thesis
      by (simp add: validate_missing_step del: validate.simps(2))
  qed
qed

lemma count_list_insort_key:
  "count_list (map f (insort_key f x ys)) n = count_list (map f (x # ys)) n"
  by (induction ys) auto

lemma count_list_sort_key:
  "count_list (map f (sort_key f xs)) n = count_list (map f xs) n"
  by (induction xs) (auto simp: count_list_insort_key)

lemma sorted_hd_Min: "sorted xs \<Longrightarrow> xs \<noteq> [] \<Longrightarrow> hd xs = Min (set xs)"
  by (cases xs) (auto intro!: Min_eqI[symmetric])

lemma sorted_last_Max: "sorted xs \<Longrightarrow> xs \<noteq> [] \<Longrightarrow> last xs = Max (set xs)"
  by (induction xs) (auto intro!: Max_eqI[symmetric] simp: max_def)

lemma validate_missing_start:
  "fns \<noteq> [] \<Longrightarrow>
   missing_numbers (validate fns seen 1) =
     missing_numbers (validate fns seen (min 1 (row_fn_number (hd fns))))"
  by (cases fns) (auto simp: Let_def min_def)

text \<open>
  Claim C4, as amended.  The validation sorts the resolved footnote numbers ascending.  Its
  \<open>MISSING\<close> diagnostics are, in ascending order, exactly the integers between 1 (or the
  smallest resolved number, when that is below 1) and the largest resolved number that are
  not resolved.  For every number its \<open>DUPLICATE\<close> diagnostics are one fewer than the records
  that resolve it: none for a number resolved once, exactly one for a number resolved twice.
\<close>

theorem generate_footnote_index_issues:
  fixes result :: classification
  defines "nums \<equiv> resolved_numbers result"
  defines "issues \<equiv> generate_footnote_index result"
  shows "(nums \<noteq> [] \<longrightarrow>
            missing_numbers issues =
              [i \<leftarrow> [min 1 (Min (set nums)) .. Max (set nums)]. i \<notin> set nums]) \<and>
         (nums = [] \<longrightarrow> issues = []) \<and>
         (\<forall>n. count_list (duplicate_numbers issues) n = count_list nums n - 1)"
proof (intro conjI impI allI)
  let ?all = "collect_footnotes result"
  let ?srt = "sort_key row_fn_number ?all"
  let ?ns = "map row_fn_number ?srt"
  have set_ns: "set ?ns = set nums"
    by (simp add: nums_def resolved_numbers_def)
  have srt: "sorted ?ns" by (rule sorted_sort_key)
  have cnt: "\<And>n. count_list ?ns n = count_list nums n"
    by (simp add: count_list_sort_key nums_def resolved_numbers_def)
  { assume ne: "nums \<noteq> []"
    then have all_ne: "?all \<noteq> []" by (auto simp: nums_def resolved_numbers_def)
    then have sne: "?srt \<noteq> []" by (metis length_0_conv length_sort)
    then have nne: "?ns \<noteq> []" by simp
    have iss: "issues = validate ?srt {} 1"
      using all_ne by (simp add: issues_def generate_footnote_index_def Let_def)
    have hd: "row_fn_number (hd ?srt) = Min (set nums)"
      using sorted_hd_Min[OF srt nne] sne by (simp add: hd_map set_ns del: set_map)
    have lst: "last ?ns = Max (set nums)"
      using sorted_last_Max[OF srt nne] by (simp add: set_ns del: set_map)
    have ge: "\<forall>x\<in>set ?ns. min 1 (Min (set nums)) - 1 \<le> x"
      unfolding set_ns
    proof
      fix x assume "x \<in> set nums"
      then have "Min (set nums) \<le> x" by simp
      then show "min 1 (Min (set nums)) - 1 \<le> x" by simp
    qed
    from validate_missing[OF srt sne ge, of "{}"] validate_missing_start[OF sne, of "{}"]
    show "missing_numbers issues =
              [i \<leftarrow> [min 1 (Min (set nums)) .. Max (set nums)]. i \<notin> set nums]"
      by (simp add: iss hd lst set_ns del: set_map) }
  { assume "nums = []"
    then show "issues = []"
      by (simp add: nums_def resolved_numbers_def issues_def generate_footnote_index_def) }
  fix n
  show "count_list (duplicate_numbers issues) n = count_list nums n - 1"
  proof (cases "?all = []")
    case True
    then show ?thesis
      by (simp add: nums_def resolved_numbers_def issues_def generate_footnote_index_def)
  next
    case False
    then have "issues = validate ?srt {} 1"
      by (simp add: issues_def generate_footnote_index_def Let_def)
    then show ?thesis
      using validate_duplicates[of ?srt "{}" 1 n] cnt by simp
  qed
qed

text \<open>
  Three records that claim number 7 give two duplicate diagnostics, not exactly one.
\<close>

theorem generate_footnote_index_counterexample:
  "generate_footnote_index (footnotes_result [[7], [7], [7]]) =
     [Missing 1 7 1, Missing 2 7 1, Missing 3 7 1, Missing 4 7 1, Missing 5 7 1, Missing 6 7 1,
      OutOfOrder 7 2 8, Duplicate 7 2, OutOfOrder 7 3 8, Duplicate 7 3]"
  by code_simp

text \<open>
  The numbers 1, 2, 4, 6: missing 3, then 5.  Two records that claim 7: one duplicate.
\<close>

theorem generate_footnote_index_issues_witness:
  "missing_numbers (generate_footnote_index (footnotes_result [[1, 2], [4, 6]])) = [3, 5] \<and>
   count_list (duplicate_numbers (generate_footnote_index (footnotes_result [[7], [7]]))) 7 = 1"
proof -
  have n1: "resolved_numbers (footnotes_result [[1, 2], [4, 6]]) = [1, 2, 4, 6]"
    by code_simp
  have f1: "[i \<leftarrow> [min 1 (Min (set [1, 2, 4, 6::int])) .. Max (set [1, 2, 4, 6])].
              i \<notin> set [1, 2, 4, 6]] = [3, 5]"
    by code_simp
  have n2: "resolved_numbers (footnotes_result [[7], [7]]) = [7, 7]"
    by code_simp
  from generate_footnote_index_issues[of "footnotes_result [[1, 2], [4, 6]]"]
    generate_footnote_index_issues[of "footnotes_result [[7], [7]]"]
  show ?thesis
    unfolding n1 n2 f1 by simp
qed

section \<open>Claims about the field verifier\<close>

lemma search_result_nonempty:
  "search_source_text st p pages = Inr (Some v) \<Longrightarrow> v \<noteq> []"
  unfolding search_source_text_eq
  by (auto simp: walk_result_nonempty split: option.splits if_splits)

lemma search_cases:
  obtains (found) v where "search_source_text st p pages = Inr (Some v)" "v \<noteq> []"
  | (not_found) "search_source_text st p pages = Inr None"
proof (cases "search_source_text st p pages")
  case (Inl e)
  then show ?thesis using search_never_raises by blast
next
  case (Inr r)
  then show ?thesis
    using search_result_nonempty that by (cases r) auto
qed

lemma map_result_Inr:
  "(\<And>x. x \<in> set xs \<Longrightarrow> \<exists>y. f x = Inr y) \<Longrightarrow>
   \<exists>ys. map_result f xs = Inr ys \<and> length ys = length xs \<and> (\<forall>i<length xs. f (xs ! i) = Inr (ys ! i))"
proof (induction xs)
  case Nil
  then show ?case by simp
next
  case (Cons x xs)
  then obtain y where y: "f x = Inr y" by auto
  from Cons obtain ys where ys: "map_result f xs = Inr ys" "length ys = length xs"
    "\<forall>i<length xs. f (xs ! i) = Inr (ys ! i)" by auto
  show ?case
    using y ys by (auto simp: nth_Cons split: nat.splits)
qed

lemma verify_coa_title_cases:
  "\<exists>c'. verify_coa_title pages c = Inr c' \<and>
     (let st = py_get (search_text c) []; pg = py_get (coa_page c) 0 in
      (st \<noteq> [] \<and> pg > 0 \<longrightarrow>
         (case search_source_text st pg pages of
            Inr (Some v) \<Rightarrow> title c' = Some v \<and> title_verified c' = Some True
          | Inr None \<Rightarrow> title c' = Some st \<and> title_proposed_value c' = Some st \<and>
                         title_verified c' = Some False
          | Inl e \<Rightarrow> False)) \<and>
      (\<not> (st \<noteq> [] \<and> pg > 0) \<longrightarrow>
         title c' = Some st \<and> title_verified c' = title_verified c \<and>
         title_proposed_value c' = title_proposed_value c))"
proof (cases rule: search_cases[of "py_get (search_text c) []" "py_get (coa_page c) 0" pages])
  case (found v)
  then show ?thesis by (simp add: verify_coa_title_def Let_def truthy_def)
next
  case not_found
  then show ?thesis by (simp add: verify_coa_title_def Let_def truthy_def)
qed

lemma verify_document_title_cases:
  assumes "caption_info result = Some ci"
  shows "\<exists>r' ci'. verify_document_title result pages = Inr r' \<and>
     causes_of_action r' = causes_of_action result \<and> caption_info r' = Some ci' \<and>
     (\<forall>st pg. document_title ci = Some (TitleObj (Some st) pg) \<and> st \<noteq> [] \<longrightarrow>
        (case search_source_text st (py_get pg 1) pages of
           Inr (Some v) \<Rightarrow> document_title ci' = Some (TitleStr v) \<and>
                            document_title_verified ci' = Some True
         | Inr None \<Rightarrow> document_title ci' = Some (TitleStr st) \<and>
                        document_title_proposed_value ci' = Some st \<and>
                        document_title_verified ci' = Some False
         | Inl e \<Rightarrow> False)) \<and>
     ((\<exists>pg. document_title ci = Some (TitleObj None pg) \<or>
            document_title ci = Some (TitleObj (Some []) pg)) \<or> document_title ci = None \<longrightarrow>
        document_title ci' = Some (TitleStr []) \<and>
        document_title_verified ci' = document_title_verified ci \<and>
        document_title_proposed_value ci' = document_title_proposed_value ci) \<and>
     ((\<exists>s. document_title ci = Some (TitleStr s)) \<longrightarrow> ci' = ci)"
proof (cases "document_title ci")
  case None
  then show ?thesis
    using assms by (simp add: verify_document_title_def py_get_def truthy_def set_caption_def)
next
  case (Some dt)
  show ?thesis
  proof (cases dt)
    case (TitleStr s)
    then show ?thesis
      using assms Some
      by (simp add: verify_document_title_def py_get_def)
  next
    case (TitleObj sto pg)
    show ?thesis
    proof (cases "truthy sto")
      case False
      then show ?thesis
        using assms Some TitleObj
        by (auto simp: verify_document_title_def py_get_def truthy_def set_caption_def
                 split: option.splits)
    next
      case True
      then obtain st where st: "sto = Some st" "st \<noteq> []"
        by (auto simp: truthy_def split: option.splits)
      show ?thesis
      proof (cases rule: search_cases[of st "py_get pg 1" pages])
        case (found v)
        then show ?thesis
          using assms Some TitleObj st
          by (simp add: verify_document_title_def truthy_def set_caption_def py_get_def)
      next
        case not_found
        then show ?thesis
          using assms Some TitleObj st
          by (simp add: verify_document_title_def truthy_def set_caption_def py_get_def)
      qed
    qed
  qed
qed

text \<open>
  Claim C7, as amended.  A search-constrained field is searched when its candidate text is
  not empty and, for a cause-of-action title, its page is positive.  For such a field a
  successful search replaces the value by the verbatim source text and marks it verified;
  an unsuccessful search keeps the proposed value, records it as the proposed value and
  marks the field unverified.  A field that is not searched (empty candidate, page absent
  or not positive, title already a plain string) keeps its value and gets no verification
  flag.  Every field of the result is processed, whatever the outcome of the others.
\<close>

theorem verify_search_fields_outcome:
  assumes "caption_info result = Some ci"
  shows "\<exists>r' ci'. verify_search_fields result pages = Inr r' \<and> caption_info r' = Some ci' \<and>
     (\<forall>st pg. document_title ci = Some (TitleObj (Some st) pg) \<and> st \<noteq> [] \<longrightarrow>
        (case search_source_text st (py_get pg 1) pages of
           Inr (Some v) \<Rightarrow> document_title ci' = Some (TitleStr v) \<and>
                            document_title_verified ci' = Some True
         | Inr None \<Rightarrow> document_title ci' = Some (TitleStr st) \<and>
                        document_title_proposed_value ci' = Some st \<and>
                        document_title_verified ci' = Some False
         | Inl e \<Rightarrow> False)) \<and>
     ((\<exists>pg. document_title ci = Some (TitleObj None pg) \<or>
            document_title ci = Some (TitleObj (Some []) pg)) \<or> document_title ci = None \<longrightarrow>
        document_title ci' = Some (TitleStr []) \<and>
        document_title_verified ci' = document_title_verified ci \<and>
        document_title_proposed_value ci' = document_title_proposed_value ci) \<and>
     ((\<exists>s. document_title ci = Some (TitleStr s)) \<longrightarrow> ci' = ci) \<and>
     length (py_get (causes_of_action r') []) = length (py_get (causes_of_action result) []) \<and>
     (\<forall>i<length (py_get (causes_of_action result) []).
        let c = py_get (causes_of_action result) [] ! i;
            c' = py_get (causes_of_action r') [] ! i;
            st = py_get (search_text c) [];
            pg = py_get (coa_page c) 0
        in (st \<noteq> [] \<and> pg > 0 \<longrightarrow>
              (case search_source_text st pg pages of
                 Inr (Some v) \<Rightarrow> title c' = Some v \<and> title_verified c' = Some True
               | Inr None \<Rightarrow> title c' = Some st \<and> title_proposed_value c' = Some st \<and>
                              title_verified c' = Some False
               | Inl e \<Rightarrow> False)) \<and>
           (\<not> (st \<noteq> [] \<and> pg > 0) \<longrightarrow>
              title c' = Some st \<and> title_verified c' = title_verified c \<and>
              title_proposed_value c' = title_proposed_value c))"
proof -
  from verify_document_title_cases[OF assms, of pages]
  obtain r1 ci' where r1: "verify_document_title result pages = Inr r1"
    "causes_of_action r1 = causes_of_action result" "caption_info r1 = Some ci'"
    and t: "(\<forall>st pg. document_title ci = Some (TitleObj (Some st) pg) \<and> st \<noteq> [] \<longrightarrow>
        (case search_source_text st (py_get pg 1) pages of
           Inr (Some v) \<Rightarrow> document_title ci' = Some (TitleStr v) \<and>
                            document_title_verified ci' = Some True
         | Inr None \<Rightarrow> document_title ci' = Some (TitleStr st) \<and>
                        document_title_proposed_value ci' = Some st \<and>
                        document_title_verified ci' = Some False
         | Inl e \<Rightarrow> False)) \<and>
     ((\<exists>pg. document_title ci = Some (TitleObj None pg) \<or>
            document_title ci = Some (TitleObj (Some []) pg)) \<or> document_title ci = None \<longrightarrow>
        document_title ci' = Some (TitleStr []) \<and>
        document_title_verified ci' = document_title_verified ci \<and>
        document_title_proposed_value ci' = document_title_proposed_value ci) \<and>
     ((\<exists>s. document_title ci = Some (TitleStr s)) \<longrightarrow> ci' = ci)"
    by (elim exE conjE) (rule that, assumption+, intro conjI, assumption+)
  show ?thesis
  proof (cases "causes_of_action result")
    case None
    then show ?thesis
      using r1 t by (simp add: verify_search_fields_def py_get_def)
  next
    case (Some coas)
    have "\<And>c. \<exists>c'. verify_coa_title pages c = Inr c'"
      using verify_coa_title_cases by blast
    from map_result_Inr[of coas "verify_coa_title pages", OF this]
    obtain ys where ys: "map_result (verify_coa_title pages) coas = Inr ys"
      "length ys = length coas"
      "\<forall>i<length coas. verify_coa_title pages (coas ! i) = Inr (ys ! i)" by blast
    have c: "\<forall>i<length coas.
        let c = coas ! i; c' = ys ! i;
            st = py_get (search_text c) [];
            pg = py_get (coa_page c) 0
        in (st \<noteq> [] \<and> pg > 0 \<longrightarrow>
              (case search_source_text st pg pages of
                 Inr (Some v) \<Rightarrow> title c' = Some v \<and> title_verified c' = Some True
               | Inr None \<Rightarrow> title c' = Some st \<and> title_proposed_value c' = Some st \<and>
                              title_verified c' = Some False
               | Inl e \<Rightarrow> False)) \<and>
           (\<not> (st \<noteq> [] \<and> pg > 0) \<longrightarrow>
              title c' = Some st \<and> title_verified c' = title_verified c \<and>
              title_proposed_value c' = title_proposed_value c)"
    proof (intro allI impI)
      fix i assume "i < length coas"
      with ys(3) have "verify_coa_title pages (coas ! i) = Inr (ys ! i)" by simp
      with verify_coa_title_cases[of pages "coas ! i"]
      show "let c = coas ! i; c' = ys ! i;
            st = py_get (search_text c) [];
            pg = py_get (coa_page c) 0
        in (st \<noteq> [] \<and> pg > 0 \<longrightarrow>
              (case search_source_text st pg pages of
                 Inr (Some v) \<Rightarrow> title c' = Some v \<and> title_verified c' = Some True
               | Inr None \<Rightarrow> title c' = Some st \<and> title_proposed_value c' = Some st \<and>
                              title_verified c' = Some False
               | Inl e \<Rightarrow> False)) \<and>
           (\<not> (st \<noteq> [] \<and> pg > 0) \<longrightarrow>
              title c' = Some st \<and> title_verified c' = title_verified c \<and>
              title_proposed_value c' = title_proposed_value c)"
        by (auto simp: Let_def)
    qed
    have v: "verify_search_fields result pages = Inr (r1\<lparr>causes_of_action := Some ys\<rparr>)"
      using r1 ys Some by (simp add: verify_search_fields_def)
    show ?thesis
      apply (rule exI[of _ "r1\<lparr>causes_of_action := Some ys\<rparr>"])
      apply (rule exI[of _ ci'])
      using v r1(3) t c ys(2) Some
      apply (simp add: py_get_def)
      done
  qed
qed

text \<open>
  A cause-of-action title with page 0: the search for it finds nothing, yet the field is not
  marked unverified.
\<close>

theorem verify_search_fields_counterexample:
  "search_source_text ''Negligence'' 0 pages_example = Inr None \<and>
   verify_search_fields
     \<lparr>caption_info = Some \<lparr>document_title = Some (TitleStr ''Complaint''),
        document_title_verified = None, document_title_proposed_value = None\<rparr>,
      causes_of_action = Some [coa_titled ''Negligence'' 0], result_pages = None\<rparr>
     pages_example
   = Inr \<lparr>caption_info = Some \<lparr>document_title = Some (TitleStr ''Complaint''),
        document_title_verified = None, document_title_proposed_value = None\<rparr>,
      causes_of_action = Some [\<lparr>coa_number = Some 1, search_text = None, coa_page = Some 0,
         paragraph_range = None, title = Some ''Negligence'', title_verified = None,
         title_proposed_value = None, paragraph_range_verified = None,
         missing_paragraphs = None\<rparr>],
      result_pages = None\<rparr>"
  by code_simp

text \<open>
  The document title and the first title are found and replaced by the page's own text, the
  second title is not found and stays as proposed, the third is not searched.
\<close>

theorem verify_search_fields_outcome_witness:
  "\<exists>r' ci'. verify_search_fields result_example pages_example = Inr r' \<and>
     caption_info r' = Some ci' \<and>
     document_title ci' = Some (TitleStr ''COMPLAINT FOR\<newline>DAMAGES'') \<and>
     document_title_verified ci' = Some True \<and>
     title (py_get (causes_of_action r') [] ! 0) = Some ''Breach of\<newline>  Contract'' \<and>
     title_verified (py_get (causes_of_action r') [] ! 0) = Some True \<and>
     title (py_get (causes_of_action r') [] ! 1) = Some ''Fraud'' \<and>
     title_proposed_value (py_get (causes_of_action r') [] ! 1) = Some ''Fraud'' \<and>
     title_verified (py_get (causes_of_action r') [] ! 1) = Some False \<and>
     title (py_get (causes_of_action r') [] ! 2) = Some ''Negligence'' \<and>
     title_verified (py_get (causes_of_action r') [] ! 2) = None"
proof -
  let ?ci = "\<lparr>document_title = Some (TitleObj (Some ''COMPLAINT FOR DAMAGES'') (Some 1)),
        document_title_verified = None, document_title_proposed_value = None\<rparr>"
  have ci: "caption_info result_example = Some ?ci"
    by (simp add: result_example_def)
  have coas: "py_get (causes_of_action result_example) [] =
      [coa_titled ''Breach of Contract'' 1, coa_titled ''Fraud'' 1, coa_titled ''Negligence'' 0]"
    by (simp add: result_example_def py_get_def)
  have s0: "search_source_text ''COMPLAINT FOR DAMAGES'' 1 pages_example
              = Inr (Some ''COMPLAINT FOR\<newline>DAMAGES'')"
    by code_simp
  have s1: "search_source_text ''Breach of Contract'' 1 pages_example
              = Inr (Some ''Breach of\<newline>  Contract'')"
    by code_simp
  have s2: "search_source_text ''Fraud'' 1 pages_example = Inr None"
    by code_simp
  from verify_search_fields_outcome[OF ci, of pages_example]
  obtain r' ci' where r: "verify_search_fields result_example pages_example = Inr r'"
    "caption_info r' = Some ci'"
    and t: "\<forall>st pg. document_title ?ci = Some (TitleObj (Some st) pg) \<and> st \<noteq> [] \<longrightarrow>
        (case search_source_text st (py_get pg 1) pages_example of
           Inr (Some v) \<Rightarrow> document_title ci' = Some (TitleStr v) \<and>
                            document_title_verified ci' = Some True
         | Inr None \<Rightarrow> document_title ci' = Some (TitleStr st) \<and>
                        document_title_proposed_value ci' = Some st \<and>
                        document_title_verified ci' = Some False
         | Inl e \<Rightarrow> False)"
    and c: "\<forall>i<length (py_get (causes_of_action result_example) []).
        let c = py_get (causes_of_action result_example) [] ! i;
            c' = py_get (causes_of_action r') [] ! i;
            st = py_get (search_text c) [];
            pg = py_get (coa_page c) 0
        in (st \<noteq> [] \<and> pg > 0 \<longrightarrow>
              (case search_source_text st pg pages_example of
                 Inr (Some v) \<Rightarrow> title c' = Some v \<and> title_verified c' = Some True
               | Inr None \<Rightarrow> title c' = Some st \<and> title_proposed_value c' = Some st \<and>
                              title_verified c' = Some False
               | Inl e \<Rightarrow> False)) \<and>
           (\<not> (st \<noteq> [] \<and> pg > 0) \<longrightarrow>
              title c' = Some st \<and> title_verified c' = title_verified c \<and>
              title_proposed_value c' = title_proposed_value c)"
    by (elim exE conjE) (rule that, assumption+)
  from t[rule_format, of "''COMPLAINT FOR DAMAGES''" "Some 1"]
  have dt: "document_title ci' = Some (TitleStr ''COMPLAINT FOR\<newline>DAMAGES'')"
    "document_title_verified ci' = Some True"
    by (simp_all add: py_get_def s0)
  from c[rule_format, of 0]
  have c0: "title (py_get (causes_of_action r') [] ! 0) = Some ''Breach of\<newline>  Contract''"
    "title_verified (py_get (causes_of_action r') [] ! 0) = Some True"
    by (simp_all add: coas coa_titled_def py_get_def[of "Some _"] Let_def s1)
  from c[rule_format, of 1]
  have c1: "title (py_get (causes_of_action r') [] ! 1) = Some ''Fraud''"
    "title_proposed_value (py_get (causes_of_action r') [] ! 1) = Some ''Fraud''"
    "title_verified (py_get (causes_of_action r') [] ! 1) = Some False"
    by (simp_all add: coas coa_titled_def py_get_def[of "Some _"] Let_def s2)
  from c[rule_format, of 2]
  have c2: "title (py_get (causes_of_action r') [] ! 2) = Some ''Negligence''"
    "title_verified (py_get (causes_of_action r') [] ! 2) = None"
    by (simp_all add: coas coa_titled_def py_get_def[of "Some _"] Let_def)
  show ?thesis
    using r dt c0 c1 c2 by blast
qed

section \<open>Claims about the location inventory\<close>

lemma inventory_page_map_of:
  "map_of (inventory_page pg fns d) =
     map_of d ++ map_of (rev (filter (\<lambda>(n, r). n > 0)
                          (map (\<lambda>fn. (py_get (fn_number fn) 0, location_record pg fn)) fns)))"
proof (induction fns arbitrary: d)
  case Nil
  then show ?case by simp
next
  case (Cons fn fns)
  show ?case
    by (simp add: Cons.IH Let_def update_conv')
       (simp add: map_add_def fun_eq_iff split: option.splits)
qed

lemma inventory_pages_map_of:
  "map_of (inventory_pages pages d) =
     map_of d ++ map_of (rev (filter (\<lambda>(n, r). n > 0) (listed_locations pages)))"
proof (induction pages arbitrary: d)
  case Nil
  then show ?case by (simp add: listed_locations_def)
next
  case (Cons page pages)
  show ?case
    by (simp add: Cons.IH inventory_page_map_of listed_locations_def)
qed

lemma map_of_filter_key:
  "map_of (filter (\<lambda>(k, v). P k) xs) k = (if P k then map_of xs k else None)"
  by (induction xs) auto

lemma inventory_page_distinct:
  "distinct (map fst d) \<Longrightarrow> distinct (map fst (inventory_page pg fns d))"
  by (induction fns arbitrary: d) (auto simp: Let_def distinct_update)

lemma inventory_pages_distinct:
  "distinct (map fst d) \<Longrightarrow> distinct (map fst (inventory_pages pages d))"
  by (induction pages arbitrary: d) (auto simp: inventory_page_distinct)

text \<open>
  Claim C10.  The location inventory is a dictionary keyed by footnote number, so it holds
  at most one record for each number.  Entries whose number is not positive are dropped.
  For a positive number, the record kept is the one made from the entry that the
  classification output lists last, so that of a later-listed page replaces an earlier one,
  and no second record for a number is handed to the merge step.
\<close>

theorem extract_fn_inventory_unique:
  "distinct (map fst (extract_fn_inventory pages)) \<and>
   (\<forall>n. map_of (extract_fn_inventory pages) n =
          (if n > 0 then map_of (rev (listed_locations pages)) n else None))"
proof
  show "distinct (map fst (extract_fn_inventory pages))"
    by (simp add: extract_fn_inventory_def inventory_pages_distinct)
  show "\<forall>n. map_of (extract_fn_inventory pages) n =
          (if n > 0 then map_of (rev (listed_locations pages)) n else None)"
    using map_of_filter_key[of "\<lambda>n. 0 < n" "rev (listed_locations pages)"]
    by (simp add: extract_fn_inventory_def inventory_pages_map_of rev_filter)
qed

text \<open>
  Footnote 1 is listed on page 1 and on page 2: the record of page 2 is kept; the entry with
  number 0 is dropped.
\<close>

theorem extract_fn_inventory_unique_witness:
  "map_of (extract_fn_inventory listed_example) 1 =
     Some \<lparr>loc_page = 2, loc_merge_status = ''partial'', loc_merge_location = [],
           llm_text = ''second'', original_page = None\<rparr> \<and>
   map_of (extract_fn_inventory listed_example) 0 = None \<and>
   distinct (map fst (extract_fn_inventory listed_example))"
  using extract_fn_inventory_unique[of listed_example]
  by (simp add: listed_example_def listed_locations_def location_record_def py_get_def)

section \<open>Claims about the attribution correction\<close>

lemma add_marker_page_lookup:
  "map_of (add_marker_page pg mp k) n =
     (if n = k then Some (insert pg (py_get (map_of mp k) {})) else map_of mp n)"
  by (simp add: add_marker_page_def update_conv')

lemma fold_numbers_lookup:
  "map_of (foldl (add_marker_page pg) mp ns) n =
     (if n \<in> set ns then Some (insert pg (py_get (map_of mp n) {})) else map_of mp n)"
proof (induction ns arbitrary: mp)
  case Nil
  then show ?case by simp
next
  case (Cons k ns)
  show ?case
    by (auto simp: Cons.IH add_marker_page_lookup py_get_def)
qed

lemma fold_lines_lookup:
  "map_of (foldl (\<lambda>mp line. foldl (add_marker_page pg) mp (marker_finditer 0 line)) mp lines) n =
     (if n \<in> set (concat (map (marker_finditer 0) lines))
      then Some (insert pg (py_get (map_of mp n) {})) else map_of mp n)"
proof (induction lines arbitrary: mp)
  case Nil
  then show ?case by simp
next
  case (Cons line lines)
  show ?case
    by (auto simp: Cons.IH fold_numbers_lookup py_get_def)
qed

lemma fold_blocks_lookup:
  "map_of (foldl (\<lambda>mp block.
        foldl (\<lambda>mp line. foldl (add_marker_page (block_page_number block)) mp (marker_finditer 0 line))
          mp (block_lines block)) mp bs) n =
     (if marker_survey bs n = {} then map_of mp n
      else Some (marker_survey bs n \<union> py_get (map_of mp n) {}))"
proof (induction bs arbitrary: mp)
  case Nil
  then show ?case by (simp add: marker_survey_def)
next
  case (Cons b bs)
  have split: "marker_survey (b # bs) n =
      (if n \<in> set (concat (map (marker_finditer 0) (block_lines b)))
       then {block_page_number b} else {}) \<union> marker_survey bs n"
    by (auto simp: marker_survey_def)
  show ?case
    unfolding foldl_Cons Cons.IH fold_lines_lookup split
    by (auto simp: py_get_def)
qed

lemma scan_marker_pages_lookup:
  "map_of (scan_marker_pages bs) n =
     (if marker_survey bs n = {} then None else Some (marker_survey bs n))"
  unfolding scan_marker_pages_def by (simp add: fold_blocks_lookup py_get_def)

lemma finite_marker_survey: "finite (marker_survey bs n)"
proof -
  have "marker_survey bs n \<subseteq> block_page_number ` set bs"
    by (auto simp: marker_survey_def)
  then show ?thesis by (rule finite_subset) simp
qed

lemma process_document_corrected:
  "cls \<noteq> [] \<Longrightarrow>
   snd (snd (process_document content (Some cls))) =
     Some (correct_attribution (scan_marker_pages (snd (split_into_pages content))) cls)"
  by (simp add: process_document_def has_inventory_def Let_def split: prod.splits)

text \<open>
  Claim C3, as amended.  The marker survey of a footnote number is the set of the pages on
  which \<open>FN_MARKER_RE\<close> finds a marker with that number, in the body of a line or at the
  head of a trailing text block.  For every location record whose claimed page is absent
  from the survey of its number, the correction sets the record's page to the least page of
  the survey and keeps the claimed page in \<open>original_page\<close>; a record whose claimed page is
  in the survey, or whose number has an empty survey, is left as it is.
\<close>

theorem attribution_correction:
  fixes content :: string and cls :: "(int \<times> fn_location) list"
  defines "bs \<equiv> snd (split_into_pages content)"
  assumes ne: "cls \<noteq> []"
  shows "\<exists>cls'. snd (snd (process_document content (Some cls))) = Some cls' \<and>
           length cls' = length cls \<and>
           (\<forall>i<length cls.
              let n = fst (cls ! i); d = snd (cls ! i); d' = snd (cls' ! i);
                  survey = marker_survey bs n
              in fst (cls' ! i) = n \<and>
                 (survey = {} \<longrightarrow> d' = d) \<and>
                 (survey \<noteq> {} \<and> loc_page d \<in> survey \<longrightarrow> d' = d) \<and>
                 (survey \<noteq> {} \<and> loc_page d \<notin> survey \<longrightarrow>
                    d' = d\<lparr>original_page := Some (loc_page d), loc_page := Min survey\<rparr> \<and>
                    Min survey \<in> survey \<and> (\<forall>p\<in>survey. Min survey \<le> p)))"
proof -
  let ?mp = "scan_marker_pages bs"
  let ?cls' = "correct_attribution ?mp cls"
  have r: "snd (snd (process_document content (Some cls))) = Some ?cls'"
    unfolding bs_def by (rule process_document_corrected[OF ne])
  have len: "length ?cls' = length cls" by (simp add: correct_attribution_def)
  have each: "\<forall>i<length cls.
              let n = fst (cls ! i); d = snd (cls ! i); d' = snd (?cls' ! i);
                  survey = marker_survey bs n
              in fst (?cls' ! i) = n \<and>
                 (survey = {} \<longrightarrow> d' = d) \<and>
                 (survey \<noteq> {} \<and> loc_page d \<in> survey \<longrightarrow> d' = d) \<and>
                 (survey \<noteq> {} \<and> loc_page d \<notin> survey \<longrightarrow>
                    d' = d\<lparr>original_page := Some (loc_page d), loc_page := Min survey\<rparr> \<and>
                    Min survey \<in> survey \<and> (\<forall>p\<in>survey. Min survey \<le> p))"
  proof (intro allI impI)
    fix i assume i: "i < length cls"
    obtain n d where nd: "cls ! i = (n, d)" by (cases "cls ! i")
    have c: "?cls' ! i = (n, correct_entry ?mp n d)"
      using i nd by (simp add: correct_attribution_def)
    have fin: "finite (marker_survey bs n)" by (rule finite_marker_survey)
    show "let n = fst (cls ! i); d = snd (cls ! i); d' = snd (?cls' ! i);
                  survey = marker_survey bs n
              in fst (?cls' ! i) = n \<and>
                 (survey = {} \<longrightarrow> d' = d) \<and>
                 (survey \<noteq> {} \<and> loc_page d \<in> survey \<longrightarrow> d' = d) \<and>
                 (survey \<noteq> {} \<and> loc_page d \<notin> survey \<longrightarrow>
                    d' = d\<lparr>original_page := Some (loc_page d), loc_page := Min survey\<rparr> \<and>
                    Min survey \<in> survey \<and> (\<forall>p\<in>survey. Min survey \<le> p))"
      using fin by (simp add: nd c correct_entry_def scan_marker_pages_lookup Let_def)
  qed
  from r len each show ?thesis by blast
qed

lemma marker_survey_filter:
  "marker_survey bs n =
     set (map block_page_number
            (filter (\<lambda>b. n \<in> set (concat (map (marker_finditer 0) (block_lines b)))) bs))"
  by (auto simp: marker_survey_def)

lemma attribution_survey:
  "marker_survey (snd (split_into_pages attribution_document)) 7 = {8, 9}"
  unfolding marker_survey_filter by code_simp

text \<open>
  Footnote 7 claimed for page 5, markers for 7 on the pages 8 and 9 only: the page becomes 8
  and the claim 5 is kept.
\<close>

theorem attribution_correction_witness:
  "snd (snd (process_document attribution_document (Some [(7, attribution_record)]))) =
     Some [(7, attribution_record\<lparr>original_page := Some 5, loc_page := 8\<rparr>)]"
proof -
  have ne: "[(7, attribution_record)] \<noteq> []" by simp
  from attribution_correction[OF ne, of attribution_document]
  obtain cls' where r: "snd (snd (process_document attribution_document (Some [(7, attribution_record)]))) = Some cls'"
    and len: "length cls' = 1"
    and e: "fst (cls' ! 0) = 7"
      "snd (cls' ! 0) = attribution_record\<lparr>original_page := Some 5, loc_page := 8\<rparr>"
    by (auto simp: Let_def attribution_survey attribution_record_def)
  from len obtain x where "cls' = [x]"
    by (cases cls') auto
  with e have "cls' = [(7, attribution_record\<lparr>original_page := Some 5, loc_page := 8\<rparr>)]"
    by (cases x) simp
  with r show ?thesis by simp
qed

text \<open>
  With the text block of footnote 7 on page 5 the inline references are still on the pages
  8 and 9 only, but the head of the text block puts page 5 into the survey, and the record
  that claims page 5 is not corrected.
\<close>

theorem attribution_correction_counterexample:
  "match_text_block ''$ ^{7} $ The footnote text.'' = Some (7, ''The footnote text.'') \<and>
   snd (snd (process_document attribution_document_block (Some [(7, attribution_record)]))) =
     Some [(7, attribution_record)]"
  by code_simp

section \<open>Claims about the removal of text blocks\<close>

lemma find_upt:
  "List.find P [a..<b] = Some j \<longleftrightarrow> a \<le> j \<and> j < b \<and> P j \<and> (\<forall>k. a \<le> k \<and> k < j \<longrightarrow> \<not> P k)"
proof (induction "b - a" arbitrary: a)
  case 0
  then show ?case by auto
next
  case (Suc m)
  then have ab: "a < b" and m: "m = b - Suc a" by auto
  have u: "[a..<b] = a # [Suc a..<b]" using ab by (simp add: upt_conv_Cons)
  show ?case
  proof (cases "P a")
    case True
    then show ?thesis
      unfolding u using ab by (auto simp: not_less_eq_eq dest: leD)
  next
    case False
    have "List.find P [a..<b] = List.find P [Suc a..<b]"
      unfolding u using False by simp
    also have "\<dots> = Some j \<longleftrightarrow> Suc a \<le> j \<and> j < b \<and> P j \<and> (\<forall>k. Suc a \<le> k \<and> k < j \<longrightarrow> \<not> P k)"
      by (rule Suc(1)[OF m])
    also have "\<dots> \<longleftrightarrow> a \<le> j \<and> j < b \<and> P j \<and> (\<forall>k. a \<le> k \<and> k < j \<longrightarrow> \<not> P k)"
      using False by (metis Suc_leD Suc_leI le_neq_implies_less not_less_eq_eq)
    finally show ?thesis .
  qed
qed

lemma find_rev_upt:
  "List.find P (rev [0..<i]) = Some j \<longleftrightarrow> j < i \<and> P j \<and> (\<forall>k. j < k \<and> k < i \<longrightarrow> \<not> P k)"
proof (induction i)
  case 0
  then show ?case by simp
next
  case (Suc i)
  show ?case
  proof (cases "P i")
    case True
    then show ?thesis by (auto simp: less_Suc_eq)
  next
    case False
    then show ?thesis
      using Suc by (auto simp: less_Suc_eq)
  qed
qed

lemma is_blank_iff: "is_blank l \<longleftrightarrow> (\<forall>c\<in>set l. py_isspace c)"
proof
  assume "is_blank l"
  then have "dropWhile py_isspace (rev (dropWhile py_isspace l)) = []"
    by (simp add: is_blank_def py_strip_def)
  then have "dropWhile py_isspace l = []"
    by (metis dropWhile_eq_Nil_conv hd_dropWhile hd_in_set set_rev)
  then show "\<forall>c\<in>set l. py_isspace c" by simp
next
  assume "\<forall>c\<in>set l. py_isspace c"
  then have "dropWhile py_isspace l = []" by simp
  then show "is_blank l" by (simp only: is_blank_def py_strip_def rev.simps dropWhile.simps)
qed

lemma match_marker_dollar:
  assumes "match_marker l = Some r"
  shows "CHR 0x24 \<in> set l"
proof (cases "dropWhile py_isspace l")
  case Nil
  with assms show ?thesis by (simp add: match_marker_def)
next
  case (Cons d1 r1)
  with assms have "d1 = CHR 0x24"
    by (simp add: match_marker_def split: if_splits)
  with Cons have "CHR 0x24 \<in> set (dropWhile py_isspace l)" by simp
  then show ?thesis by (rule set_dropWhileD)
qed

lemma text_block_not_blank: "match_text_block l = Some r \<Longrightarrow> \<not> is_blank l"
proof -
  assume "match_text_block l = Some r"
  then obtain m where "match_marker l = Some m"
    by (auto simp: match_text_block_def split: option.splits)
  then have "CHR 0x24 \<in> set l" by (rule match_marker_dollar)
  moreover have "\<not> py_isspace (CHR 0x24)" by (simp add: py_isspace_def)
  ultimately show ?thesis unfolding is_blank_iff by blast
qed

lemma fn_line_indices_set:
  "i \<in> set (fn_line_indices lines S) \<longleftrightarrow>
     i < length lines \<and> (case match_text_block (lines ! i) of None \<Rightarrow> False | Some (n, g) \<Rightarrow> n \<in> S)"
  by (auto simp: fn_line_indices_def)

lemma block_not_blank:
  "i \<in> set (fn_line_indices lines S) \<Longrightarrow> \<not> is_blank (lines ! i)"
  by (auto simp: fn_line_indices_set text_block_not_blank split: option.splits)

lemma next_in_indices:
  "in_indices (next_content lines i) (fn_line_indices lines S) \<longleftrightarrow>
     (\<exists>j\<in>{i<..<length lines}. j \<in> set (fn_line_indices lines S) \<and>
        (\<forall>k\<in>{i<..<j}. is_blank (lines ! k)))"
proof
  assume "in_indices (next_content lines i) (fn_line_indices lines S)"
  then obtain j where j: "next_content lines i = Some j" "j \<in> set (fn_line_indices lines S)"
    by (auto simp: in_indices_def split: option.splits)
  from j(1) have "i < j" "j < length lines" "\<forall>k. i < k \<and> k < j \<longrightarrow> is_blank (lines ! k)"
    by (auto simp: next_content_def find_upt)
  with j(2) show "\<exists>j\<in>{i<..<length lines}. j \<in> set (fn_line_indices lines S) \<and>
        (\<forall>k\<in>{i<..<j}. is_blank (lines ! k))" by auto
next
  assume "\<exists>j\<in>{i<..<length lines}. j \<in> set (fn_line_indices lines S) \<and>
        (\<forall>k\<in>{i<..<j}. is_blank (lines ! k))"
  then obtain j where j: "i < j" "j < length lines" "j \<in> set (fn_line_indices lines S)"
    "\<forall>k. i < k \<and> k < j \<longrightarrow> is_blank (lines ! k)" by auto
  have "next_content lines i = Some j"
    unfolding next_content_def find_upt using j block_not_blank[OF j(3)] by auto
  with j(3) show "in_indices (next_content lines i) (fn_line_indices lines S)"
    by (simp add: in_indices_def)
qed

lemma prev_in_indices:
  "in_indices (prev_content lines i) (fn_line_indices lines S) \<longleftrightarrow>
     (\<exists>j\<in>{..<i}. j \<in> set (fn_line_indices lines S) \<and>
        (\<forall>k\<in>{j<..<i}. is_blank (lines ! k)))"
proof
  assume "in_indices (prev_content lines i) (fn_line_indices lines S)"
  then obtain j where j: "prev_content lines i = Some j" "j \<in> set (fn_line_indices lines S)"
    by (auto simp: in_indices_def split: option.splits)
  from j(1) have "j < i" "\<forall>k. j < k \<and> k < i \<longrightarrow> is_blank (lines ! k)"
    by (auto simp: prev_content_def find_rev_upt)
  with j(2) show "\<exists>j\<in>{..<i}. j \<in> set (fn_line_indices lines S) \<and>
        (\<forall>k\<in>{j<..<i}. is_blank (lines ! k))" by auto
next
  assume "\<exists>j\<in>{..<i}. j \<in> set (fn_line_indices lines S) \<and>
        (\<forall>k\<in>{j<..<i}. is_blank (lines ! k))"
  then obtain j where j: "j < i" "j \<in> set (fn_line_indices lines S)"
    "\<forall>k. j < k \<and> k < i \<longrightarrow> is_blank (lines ! k)" by auto
  have "prev_content lines i = Some j"
    unfolding prev_content_def find_rev_upt using j block_not_blank[OF j(2)] by auto
  with j(2) show "in_indices (prev_content lines i) (fn_line_indices lines S)"
    by (simp add: in_indices_def)
qed

text \<open>
  Claim C5, as amended.  When no line of the page is a text block for a number in the set,
  the lines come back unchanged.  Otherwise a line is deleted exactly when it is such a
  text block, or it is blank and the nearest line above it or below it that is not blank is
  such a text block; all other lines are kept, in their order.  So the whole run of blank
  lines on either side of a removed block goes, also where it is all that separates the
  block, or the lines around it, from content that is kept.
\<close>

theorem remove_fn_text_blocks_lines:
  fixes lines :: "string list" and S :: "int set"
  defines "block \<equiv> \<lambda>i. case match_text_block (lines ! i) of None \<Rightarrow> False | Some (n, g) \<Rightarrow> n \<in> S"
  defines "removed \<equiv> \<lambda>i. block i \<or>
      (is_blank (lines ! i) \<and>
        ((\<exists>j\<in>{i<..<length lines}. block j \<and> (\<forall>k\<in>{i<..<j}. is_blank (lines ! k))) \<or>
         (\<exists>j\<in>{..<i}. block j \<and> (\<forall>k\<in>{j<..<i}. is_blank (lines ! k)))))"
  shows "remove_fn_text_blocks lines S =
     (if \<exists>i\<in>{..<length lines}. block i
      then map (\<lambda>i. lines ! i) (filter (\<lambda>i. \<not> removed i) [0..<length lines])
      else lines)"
proof -
  let ?F = "fn_line_indices lines S"
  have F: "\<And>i. i \<in> set ?F \<longleftrightarrow> i < length lines \<and> block i"
    by (simp add: fn_line_indices_set block_def)
  have ne: "?F \<noteq> [] \<longleftrightarrow> (\<exists>i\<in>{..<length lines}. block i)"
  proof
    assume "?F \<noteq> []"
    then obtain i where "i \<in> set ?F" by (cases ?F) auto
    then show "\<exists>i\<in>{..<length lines}. block i" using F by auto
  next
    assume "\<exists>i\<in>{..<length lines}. block i"
    then obtain i where "i \<in> set ?F" using F by auto
    then show "?F \<noteq> []" by auto
  qed
  have keep: "\<And>i. i < length lines \<Longrightarrow>
      (i \<in> set ?F \<or> (is_blank (lines ! i) \<and>
          (in_indices (next_content lines i) ?F \<or> in_indices (prev_content lines i) ?F)))
      \<longleftrightarrow> removed i"
    unfolding next_in_indices prev_in_indices removed_def
    using F by (auto simp: less_trans)
  have flt: "filter (\<lambda>i. \<not> (i \<in> set ?F \<or> (is_blank (lines ! i) \<and>
          (in_indices (next_content lines i) ?F \<or> in_indices (prev_content lines i) ?F))))
          [0..<length lines]
        = filter (\<lambda>i. \<not> removed i) [0..<length lines]"
    by (rule filter_cong) (use keep in auto)
  show ?thesis
  proof (cases "?F = []")
    case True
    with ne have "\<not> (\<exists>i\<in>{..<length lines}. block i)" by simp
    with True show ?thesis
      by (simp add: remove_fn_text_blocks_def Let_def)
  next
    case False
    with ne have "\<exists>i\<in>{..<length lines}. block i" by simp
    with False flt show ?thesis
      by (simp only: remove_fn_text_blocks_def Let_def if_False if_True)
  qed
qed

text \<open>
  Two blank lines above the removed block are deleted, not at most one, and with them and
  the blank line below goes everything that separated the two retained lines.
\<close>

theorem remove_fn_text_blocks_counterexample:
  "remove_fn_text_blocks [''body'', '''', '''', ''$ ^{1} $ note'', '''', ''more''] {1}
     = [''body'', ''more'']"
  by code_simp

text \<open>
  The block of footnote 1 goes with the blank lines around it; the block of footnote 2 and
  the blank line below it stay.
\<close>

theorem remove_fn_text_blocks_lines_witness:
  "remove_fn_text_blocks
     [''body'', '''', ''$ ^{1} $ note'', ''   '', ''$ ^{2} $ other'', '''', ''tail''] {1}
   = [''body'', ''$ ^{2} $ other'', '''', ''tail'']"
proof -
  let ?L = "[''body'', '''', ''$ ^{1} $ note'', ''   '', ''$ ^{2} $ other'', '''', ''tail'']"
  let ?block = "\<lambda>i. case match_text_block (?L ! i) of None \<Rightarrow> False | Some (n, g) \<Rightarrow> n \<in> {1::int}"
  let ?removed = "\<lambda>i. ?block i \<or>
      (is_blank (?L ! i) \<and>
        ((\<exists>j\<in>{i<..<length ?L}. ?block j \<and> (\<forall>k\<in>{i<..<j}. is_blank (?L ! k))) \<or>
         (\<exists>j\<in>{..<i}. ?block j \<and> (\<forall>k\<in>{j<..<i}. is_blank (?L ! k)))))"
  have e: "(if \<exists>i\<in>{..<length ?L}. ?block i
      then map (\<lambda>i. ?L ! i) (filter (\<lambda>i. \<not> ?removed i) [0..<length ?L])
      else ?L) = [''body'', ''$ ^{2} $ other'', '''', ''tail'']"
    by code_simp
  show ?thesis
    unfolding remove_fn_text_blocks_lines[of ?L "{1}"] by (rule e)
qed

section \<open>Claims about the fallback path\<close>

lemma process_block_output:
  "output_parts (process_block cls ocr s b) =
     output_parts s @ [start_delim b, py_join_nl (block_merged cls ocr b), end_delim b]"
  by (simp add: process_block_def block_merged_def Let_def)

lemma foldl_process_block_output:
  "output_parts (foldl (process_block cls ocr) s bs) =
     output_parts s @
       concat (map (\<lambda>b. [start_delim b, py_join_nl (block_merged cls ocr b), end_delim b]) bs)"
  by (induction bs arbitrary: s) (simp_all add: process_block_output)

lemma process_document_content:
  "split_into_pages content = (pre, bs) \<Longrightarrow> \<not> has_inventory cls \<Longrightarrow>
   fst (process_document content cls) =
     py_join_nl ((if pre \<noteq> [] then [py_join_nl pre] else []) @
       concat (map (\<lambda>b. [start_delim b, py_join_nl (block_merged cls (scan_ocr_texts bs) b),
                          end_delim b]) bs))"
  by (simp add: process_document_def Let_def foldl_process_block_output)

lemma remove_fn_text_blocks_kept:
  assumes "l \<in> set (remove_fn_text_blocks lines S)" "match_text_block l = Some (n, g)"
  shows "n \<notin> S"
proof -
  let ?F = "fn_line_indices lines S"
  have "\<exists>i<length lines. l = lines ! i \<and> i \<notin> set ?F"
  proof (cases "?F = []")
    case True
    with assms(1) have "l \<in> set lines"
      by (simp add: remove_fn_text_blocks_def)
    then show ?thesis using True by (auto simp: in_set_conv_nth)
  next
    case False
    with assms(1) show ?thesis
      by (auto simp: remove_fn_text_blocks_def Let_def)
  qed
  then obtain i where "i < length lines" "l = lines ! i" "i \<notin> set ?F" by blast
  with assms(2) show ?thesis
    by (auto simp: fn_line_indices_set)
qed

text \<open>
  Claim C2, as amended.  Without location records every page is rewritten from its own
  trailing text blocks only.  A page that holds no text block is emitted unchanged: an
  inline reference whose text block stands on another page keeps its marker, and no
  annotation is inserted for it.  On a page that holds text blocks, these blocks are removed
  and the references of the page to their numbers are replaced.  So in the two-page case the
  referencing page is unchanged and the text block is removed from the page that holds it.
\<close>

theorem process_document_fallback:
  assumes sp: "split_into_pages content = (pre, bs)"
  shows "fst (process_document content None) =
           py_join_nl ((if pre \<noteq> [] then [py_join_nl pre] else []) @
             concat (map (\<lambda>b. [start_delim b,
                                py_join_nl (block_merged None (scan_ocr_texts bs) b),
                                end_delim b]) bs)) \<and>
         (\<forall>b\<in>set bs.
            let own = extract_ocr_footnotes (block_lines b) in
            (own = [] \<longrightarrow> block_merged None (scan_ocr_texts bs) b = block_lines b) \<and>
            (own \<noteq> [] \<longrightarrow>
               block_merged None (scan_ocr_texts bs) b =
                 merge_refs_inline (remove_fn_text_blocks (block_lines b) (fst ` set own))
                   (page_fns_ocr (block_page_number b) (block_lines b)) \<and>
               (\<forall>l\<in>set (remove_fn_text_blocks (block_lines b) (fst ` set own)).
                  \<forall>n g. match_text_block l = Some (n, g) \<longrightarrow> n \<notin> fst ` set own)))"
proof
  show "fst (process_document content None) =
           py_join_nl ((if pre \<noteq> [] then [py_join_nl pre] else []) @
             concat (map (\<lambda>b. [start_delim b,
                                py_join_nl (block_merged None (scan_ocr_texts bs) b),
                                end_delim b]) bs))"
    by (rule process_document_content[OF sp]) (simp add: has_inventory_def)
  have keys: "\<And>pg lines. fst ` set (page_fns_ocr pg lines) = fst ` set (extract_ocr_footnotes lines)"
    by (force simp: page_fns_ocr_def)
  have nil: "\<And>pg lines. page_fns_ocr pg lines = [] \<longleftrightarrow> extract_ocr_footnotes lines = []"
    by (simp add: page_fns_ocr_def)
  show "\<forall>b\<in>set bs.
            let own = extract_ocr_footnotes (block_lines b) in
            (own = [] \<longrightarrow> block_merged None (scan_ocr_texts bs) b = block_lines b) \<and>
            (own \<noteq> [] \<longrightarrow>
               block_merged None (scan_ocr_texts bs) b =
                 merge_refs_inline (remove_fn_text_blocks (block_lines b) (fst ` set own))
                   (page_fns_ocr (block_page_number b) (block_lines b)) \<and>
               (\<forall>l\<in>set (remove_fn_text_blocks (block_lines b) (fst ` set own)).
                  \<forall>n g. match_text_block l = Some (n, g) \<longrightarrow> n \<notin> fst ` set own))"
    using remove_fn_text_blocks_kept
    by (auto simp: Let_def block_merged_def has_inventory_def nil keys)
qed

text \<open>
  The reference on page 1, the text block on page 2, no location records: page 1 comes out
  as it went in, page 2 loses the text block, and the text of the footnote is in neither.
\<close>

theorem process_document_fallback_counterexample:
  "process_document two_page_document None =
     (py_join_nl
        [''---[Start PDF page 1]---'',
         ''See the claim $ ^{1} $ here.'',
         ''---[End PDF page 1]---'',
         ''---[Start PDF page 2]---'',
         ''More text.'',
         ''---[End PDF page 2]---''],
      \<lparr>stats_source = ''ocr_only'', stats_total_found = 1, stats_total_merged = 1,
        stats_total_unmatched = 0, stats_total_no_ocr_text = 0,
        stats_pages_with_footnotes = 1,
        stats_page_details =
          [\<lparr>stat_page = 2, stat_fn_numbers = [1], stat_merged_refs = [1],
            stat_unmatched = [], stat_no_ocr_text = []\<rparr>]\<rparr>,
      None)"
  by code_simp

text \<open>The same document, page by page.\<close>

theorem process_document_fallback_witness:
  "fst (process_document two_page_document None) =
     py_join_nl
        [''---[Start PDF page 1]---'',
         ''See the claim $ ^{1} $ here.'',
         ''---[End PDF page 1]---'',
         ''---[Start PDF page 2]---'',
         ''More text.'',
         ''---[End PDF page 2]---'']"
proof -
  let ?b1 = "\<lparr>block_page_number = 1, start_delim = ''---[Start PDF page 1]---'',
      block_lines = [''See the claim $ ^{1} $ here.''],
      end_delim = ''---[End PDF page 1]---''\<rparr>"
  let ?b2 = "\<lparr>block_page_number = 2, start_delim = ''---[Start PDF page 2]---'',
      block_lines = [''More text.'', [], ''$ ^{1} $ The footnote text.''],
      end_delim = ''---[End PDF page 2]---''\<rparr>"
  let ?ocr = "scan_ocr_texts [?b1, ?b2]"
  have sp: "split_into_pages two_page_document = ([], [?b1, ?b2])"
    by code_simp
  have own1: "extract_ocr_footnotes (block_lines ?b1) = []"
    by code_simp
  have own2: "extract_ocr_footnotes (block_lines ?b2) \<noteq> []"
    by code_simp
  have m2: "merge_refs_inline
              (remove_fn_text_blocks (block_lines ?b2)
                 (fst ` set (extract_ocr_footnotes (block_lines ?b2))))
              (page_fns_ocr (block_page_number ?b2) (block_lines ?b2)) = [''More text.'']"
    by code_simp
  note th = process_document_fallback[OF sp]
  from th[THEN conjunct2, rule_format, of ?b1] own1
  have b1: "block_merged None ?ocr ?b1 = [''See the claim $ ^{1} $ here.'']"
    by (simp add: Let_def)
  from th[THEN conjunct2, rule_format, of ?b2] own2
  have b2: "block_merged None ?ocr ?b2 = [''More text.'']"
    unfolding Let_def m2 by simp
  from th[THEN conjunct1] show ?thesis
    by (simp add: b1 b2)
qed

section \<open>Claims about the text extraction\<close>

lemma ocr_footnotes_loop_distinct:
  "distinct (map fst d) \<Longrightarrow> distinct (map fst (ocr_footnotes_loop lines d))"
  by (induction lines arbitrary: d) (auto simp: distinct_update split: option.splits)

lemma extract_ocr_footnotes_distinct: "distinct (map fst (extract_ocr_footnotes lines))"
  by (simp add: extract_ocr_footnotes_def ocr_footnotes_loop_distinct)

lemma fold_update_lookup:
  "distinct (map fst xs) \<Longrightarrow>
   map_of (foldl (\<lambda>d (k, v). AList.update k v d) d xs) n =
     (case map_of xs n of None \<Rightarrow> map_of d n | Some v \<Rightarrow> Some v)"
proof (induction xs arbitrary: d)
  case Nil
  then show ?case by simp
next
  case (Cons x xs)
  obtain k v where x: "x = (k, v)" by (cases x)
  have "map_of xs k = None"
    using Cons.prems x by (simp add: map_of_eq_None_iff)
  then show ?case
    using Cons x by (auto simp: update_conv' split: option.splits)
qed

lemma scan_step_lookup:
  "map_of (foldl (\<lambda>d (k, v). AList.update k v d) d (extract_ocr_footnotes lines)) n =
     (case map_of (extract_ocr_footnotes lines) n of None \<Rightarrow> map_of d n | Some v \<Rightarrow> Some v)"
  by (rule fold_update_lookup[OF extract_ocr_footnotes_distinct])

lemma scan_blocks_absent:
  "\<forall>b\<in>set bs. map_of (extract_ocr_footnotes (block_lines b)) n = None \<Longrightarrow>
   map_of (foldl (\<lambda>ocr_texts block.
        foldl (\<lambda>d (fn_num, fn_text). AList.update fn_num fn_text d) ocr_texts
          (extract_ocr_footnotes (block_lines block))) d bs) n = map_of d n"
  by (induction bs arbitrary: d) (simp_all add: scan_step_lookup)

lemma scan_ocr_texts_last:
  assumes "map_of (extract_ocr_footnotes (block_lines b)) n = Some t"
    and "\<forall>b'\<in>set bs2. map_of (extract_ocr_footnotes (block_lines b')) n = None"
  shows "map_of (scan_ocr_texts (bs1 @ b # bs2)) n = Some t"
  unfolding scan_ocr_texts_def
  by (simp add: scan_blocks_absent[OF assms(2)] scan_step_lookup assms(1))

lemma page_fns_ocr_lookup:
  "map_of (page_fns_ocr pg lines) n =
     map_option (\<lambda>t. \<lparr>pf_fn_text = t, pf_page = pg, pf_llm_text = None, pf_text_source = ''ocr''\<rparr>)
       (map_of (extract_ocr_footnotes lines) n)"
  by (simp add: page_fns_ocr_def map_of_map)

lemma process_document_content_inventory:
  "split_into_pages content = (pre, bs) \<Longrightarrow> cls \<noteq> [] \<Longrightarrow>
   fst (process_document content (Some cls)) =
     py_join_nl ((if pre \<noteq> [] then [py_join_nl pre] else []) @
       concat (map (\<lambda>b. [start_delim b,
                          py_join_nl (block_merged
                            (Some (correct_attribution (scan_marker_pages bs) cls))
                            (scan_ocr_texts bs) b),
                          end_delim b]) bs))"
  by (simp add: process_document_def Let_def foldl_process_block_output has_inventory_def)

lemma page_fns_classified_keys_fold:
  "fst ` set (foldl (\<lambda>page_fns (num, data).
        if loc_page data = pg_num then
          (let ocr_text = py_get (map_of ocr_texts num) [] in
           AList.update num
             \<lparr>pf_fn_text = ocr_text, pf_page = pg_num, pf_llm_text = Some (llm_text data),
              pf_text_source = (if ocr_text \<noteq> [] then ''ocr'' else ''none'')\<rparr> page_fns)
        else page_fns) acc cls) =
     fst ` set acc \<union> set (map fst (filter (\<lambda>(k, d). loc_page d = pg_num) cls))"
proof (induction cls arbitrary: acc)
  case Nil
  then show ?case by simp
next
  case (Cons x cls)
  obtain k d0 where x: "x = (k, d0)" by (cases x)
  show ?case
    unfolding x by (auto simp: Cons.IH Let_def dom_update)
qed

lemma page_fns_classified_keys:
  "set (map fst (page_fns_classified pg ocr cls)) =
     set (map fst (filter (\<lambda>(k, d). loc_page d = pg) cls))"
  using page_fns_classified_keys_fold[of pg ocr "[]" cls]
  by (simp add: page_fns_classified_def)

lemma page_fns_classified_text_fold:
  "map_option pf_fn_text (map_of (foldl (\<lambda>page_fns (num, data).
        if loc_page data = pg_num then
          (let ocr_text = py_get (map_of ocr_texts num) [] in
           AList.update num
             \<lparr>pf_fn_text = ocr_text, pf_page = pg_num, pf_llm_text = Some (llm_text data),
              pf_text_source = (if ocr_text \<noteq> [] then ''ocr'' else ''none'')\<rparr> page_fns)
        else page_fns) acc cls) n) =
     (if n \<in> set (map fst (filter (\<lambda>(k, d). loc_page d = pg_num) cls))
      then Some (py_get (map_of ocr_texts n) [])
      else map_option pf_fn_text (map_of acc n))"
proof (induction cls arbitrary: acc)
  case Nil
  then show ?case by simp
next
  case (Cons x cls)
  obtain k d0 where x: "x = (k, d0)" by (cases x)
  show ?case
    unfolding x by (auto simp: Cons.IH Let_def update_conv')
qed

lemma page_fns_classified_text:
  "map_option pf_fn_text (map_of (page_fns_classified pg ocr cls) n) =
     (if n \<in> set (map fst (filter (\<lambda>(k, d). loc_page d = pg) cls))
      then Some (py_get (map_of ocr n) []) else None)"
  using page_fns_classified_text_fold[of pg ocr "[]" cls n]
  by (simp add: page_fns_classified_def)

lemma replace_ref_classified:
  "replace_ref (page_fns_classified pg ocr cls) n g =
     (if n \<in> set (map fst (filter (\<lambda>(k, d). loc_page d = pg) cls)) \<and>
         py_get (map_of ocr n) [] \<noteq> []
      then '' [FN'' @ py_str_int n @ '': '' @ py_get (map_of ocr n) [] @ '']''
      else g)"
  using page_fns_classified_text[of pg ocr cls n]
  by (auto simp: replace_ref_def split: option.splits if_splits)

lemma block_merged_inventory:
  assumes "cls' \<noteq> []"
  shows "block_merged (Some cls') ocr blk =
     (let keys = set (map fst (filter (\<lambda>(k, d). loc_page d = block_page_number blk) cls'))
      in if keys = {} then block_lines blk
         else map (marker_sub (replace_ref (page_fns_classified (block_page_number blk) ocr cls')) 0)
                (remove_fn_text_blocks (block_lines blk) keys))"
proof -
  let ?pf = "page_fns_classified (block_page_number blk) ocr cls'"
  let ?K = "set (map fst (filter (\<lambda>(k, d). loc_page d = block_page_number blk) cls'))"
  have k: "set (map fst ?pf) = ?K"
    by (rule page_fns_classified_keys)
  have m: "block_merged (Some cls') ocr blk =
      (if ?pf \<noteq> [] then merge_refs_inline (remove_fn_text_blocks (block_lines blk) (set (map fst ?pf))) ?pf
       else block_lines blk)"
    using assms by (simp add: block_merged_def has_inventory_def Let_def)
  show ?thesis
  proof (cases "?pf = []")
    case True
    then have "?K = {}" using k by simp
    with True m show ?thesis by (simp only: Let_def if_True if_False not_True_eq_False simp_thms)
  next
    case False
    then have ne: "set (map fst ?pf) \<noteq> {}" by simp
    have "?K \<noteq> {}" by (rule ne[unfolded k])
    with False m show ?thesis
      unfolding merge_refs_inline_def k by (simp only: Let_def if_True if_False simp_thms)
  qed
qed

lemma block_merged_fallback:
  "block_merged None ocr blk =
     (let keys = fst ` set (extract_ocr_footnotes (block_lines blk))
      in if keys = {} then block_lines blk
         else map (marker_sub (replace_ref (page_fns_ocr (block_page_number blk) (block_lines blk))) 0)
                (remove_fn_text_blocks (block_lines blk) keys))"
proof -
  let ?pf = "page_fns_ocr (block_page_number blk) (block_lines blk)"
  let ?K = "fst ` set (extract_ocr_footnotes (block_lines blk))"
  have k: "set (map fst ?pf) = ?K"
    by (force simp: page_fns_ocr_def)
  have m: "block_merged None ocr blk =
      (if ?pf \<noteq> [] then merge_refs_inline (remove_fn_text_blocks (block_lines blk) (set (map fst ?pf))) ?pf
       else block_lines blk)"
    by (simp add: block_merged_def has_inventory_def Let_def)
  show ?thesis
  proof (cases "?pf = []")
    case True
    then have "?K = {}" using k by simp
    with True m show ?thesis by (simp only: Let_def if_True if_False not_True_eq_False simp_thms)
  next
    case False
    then have ne: "set (map fst ?pf) \<noteq> {}" by simp
    have "?K \<noteq> {}" by (rule ne[unfolded k])
    with False m show ?thesis
      unfolding merge_refs_inline_def k by (simp only: Let_def if_True if_False simp_thms)
  qed
qed

lemma correct_attribution_Nil: "correct_attribution mp cls = [] \<longleftrightarrow> cls = []"
  by (simp add: correct_attribution_def)

text \<open>
  Claim C9, as amended.  Let the text block of footnote number \<open>n\<close> stand on several pages
  of a document, and let \<open>b\<close> be the last of these pages in document order, with text \<open>t\<close>.
  With location records, the output of \<open>process_document\<close> is obtained page by page: a
  page to which the corrected records assign no footnote is emitted unchanged, and on every
  other page the text blocks of the assigned numbers are removed and the markers are
  substituted; every substitution of a marker of \<open>n\<close>, on whichever page the records place
  it, carries the text \<open>t\<close> of the last page.  Without location records the output has the
  same shape, but each page substitutes the text of its own text block, so an earlier page
  carries its own, earlier text.
\<close>

theorem ocr_text_last_write_wins:
  assumes sp: "split_into_pages content = (pre, bs1 @ b # bs2)"
    and b: "map_of (extract_ocr_footnotes (block_lines b)) n = Some t"
    and later: "\<forall>b'\<in>set bs2. map_of (extract_ocr_footnotes (block_lines b')) n = None"
  shows "(\<forall>cls. cls \<noteq> [] \<longrightarrow>
      (\<exists>cls' repl.
         snd (snd (process_document content (Some cls))) = Some cls' \<and>
         fst (process_document content (Some cls)) =
           py_join_nl ((if pre \<noteq> [] then [py_join_nl pre] else []) @
             concat (map (\<lambda>blk. [start_delim blk,
                 py_join_nl
                   (let keys = set (map fst (filter (\<lambda>(k, d). loc_page d = block_page_number blk) cls'))
                    in if keys = {} then block_lines blk
                       else map (marker_sub (repl blk) 0)
                              (remove_fn_text_blocks (block_lines blk) keys)),
                 end_delim blk]) (bs1 @ b # bs2))) \<and>
         (\<forall>blk g. repl blk n g =
            (if n \<in> set (map fst (filter (\<lambda>(k, d). loc_page d = block_page_number blk) cls')) \<and>
                t \<noteq> []
             then '' [FN'' @ py_str_int n @ '': '' @ t @ '']'' else g)))) \<and>
     (\<exists>repl.
         fst (process_document content None) =
           py_join_nl ((if pre \<noteq> [] then [py_join_nl pre] else []) @
             concat (map (\<lambda>blk. [start_delim blk,
                 py_join_nl
                   (let keys = fst ` set (extract_ocr_footnotes (block_lines blk))
                    in if keys = {} then block_lines blk
                       else map (marker_sub (repl blk) 0)
                              (remove_fn_text_blocks (block_lines blk) keys)),
                 end_delim blk]) (bs1 @ b # bs2))) \<and>
         (\<forall>blk g. repl blk n g =
            (case map_of (extract_ocr_footnotes (block_lines blk)) n of
               None \<Rightarrow> g
             | Some t0 \<Rightarrow> if t0 = [] then g else '' [FN'' @ py_str_int n @ '': '' @ t0 @ '']'')))"
proof (intro conjI allI impI)
  let ?bs = "bs1 @ b # bs2"
  let ?ocr = "scan_ocr_texts ?bs"
  have l: "map_of ?ocr n = Some t"
    by (rule scan_ocr_texts_last[OF b later])
  fix cls :: "(int \<times> fn_location) list"
  assume ne: "cls \<noteq> []"
  let ?cls' = "correct_attribution (scan_marker_pages ?bs) cls"
  let ?repl = "\<lambda>blk. replace_ref (page_fns_classified (block_page_number blk) ?ocr ?cls')"
  have ne': "?cls' \<noteq> []" using ne by (simp add: correct_attribution_Nil)
  have c: "snd (snd (process_document content (Some cls))) = Some ?cls'"
    using process_document_corrected[OF ne, of content] by (simp add: sp)
  have f: "fst (process_document content (Some cls)) =
           py_join_nl ((if pre \<noteq> [] then [py_join_nl pre] else []) @
             concat (map (\<lambda>blk. [start_delim blk,
                 py_join_nl
                   (let keys = set (map fst (filter (\<lambda>(k, d). loc_page d = block_page_number blk) ?cls'))
                    in if keys = {} then block_lines blk
                       else map (marker_sub (?repl blk) 0)
                              (remove_fn_text_blocks (block_lines blk) keys)),
                 end_delim blk]) ?bs))"
    unfolding process_document_content_inventory[OF sp ne] block_merged_inventory[OF ne'] ..
  have r: "\<forall>blk g. ?repl blk n g =
            (if n \<in> set (map fst (filter (\<lambda>(k, d). loc_page d = block_page_number blk) ?cls')) \<and>
                t \<noteq> []
             then '' [FN'' @ py_str_int n @ '': '' @ t @ '']'' else g)"
    by (auto simp: replace_ref_classified l py_get_def)
  show "\<exists>cls' repl.
         snd (snd (process_document content (Some cls))) = Some cls' \<and>
         fst (process_document content (Some cls)) =
           py_join_nl ((if pre \<noteq> [] then [py_join_nl pre] else []) @
             concat (map (\<lambda>blk. [start_delim blk,
                 py_join_nl
                   (let keys = set (map fst (filter (\<lambda>(k, d). loc_page d = block_page_number blk) cls'))
                    in if keys = {} then block_lines blk
                       else map (marker_sub (repl blk) 0)
                              (remove_fn_text_blocks (block_lines blk) keys)),
                 end_delim blk]) (bs1 @ b # bs2))) \<and>
         (\<forall>blk g. repl blk n g =
            (if n \<in> set (map fst (filter (\<lambda>(k, d). loc_page d = block_page_number blk) cls')) \<and>
                t \<noteq> []
             then '' [FN'' @ py_str_int n @ '': '' @ t @ '']'' else g))"
    using c f r by (intro exI[of _ ?cls'] exI[of _ ?repl] conjI)
next
  let ?bs = "bs1 @ b # bs2"
  let ?repl = "\<lambda>blk. replace_ref (page_fns_ocr (block_page_number blk) (block_lines blk))"
  have f: "fst (process_document content None) =
           py_join_nl ((if pre \<noteq> [] then [py_join_nl pre] else []) @
             concat (map (\<lambda>blk. [start_delim blk,
                 py_join_nl
                   (let keys = fst ` set (extract_ocr_footnotes (block_lines blk))
                    in if keys = {} then block_lines blk
                       else map (marker_sub (?repl blk) 0)
                              (remove_fn_text_blocks (block_lines blk) keys)),
                 end_delim blk]) ?bs))"
  proof -
    have "\<not> has_inventory None" by (simp add: has_inventory_def)
    from process_document_content[OF sp this] show ?thesis
      unfolding block_merged_fallback .
  qed
  have r: "\<forall>blk g. ?repl blk n g =
            (case map_of (extract_ocr_footnotes (block_lines blk)) n of
               None \<Rightarrow> g
             | Some t0 \<Rightarrow> if t0 = [] then g else '' [FN'' @ py_str_int n @ '': '' @ t0 @ '']'')"
    by (simp add: replace_ref_def page_fns_ocr_lookup split: option.splits)
  show "\<exists>repl.
         fst (process_document content None) =
           py_join_nl ((if pre \<noteq> [] then [py_join_nl pre] else []) @
             concat (map (\<lambda>blk. [start_delim blk,
                 py_join_nl
                   (let keys = fst ` set (extract_ocr_footnotes (block_lines blk))
                    in if keys = {} then block_lines blk
                       else map (marker_sub (repl blk) 0)
                              (remove_fn_text_blocks (block_lines blk) keys)),
                 end_delim blk]) (bs1 @ b # bs2))) \<and>
         (\<forall>blk g. repl blk n g =
            (case map_of (extract_ocr_footnotes (block_lines blk)) n of
               None \<Rightarrow> g
             | Some t0 \<Rightarrow> if t0 = [] then g else '' [FN'' @ py_str_int n @ '': '' @ t0 @ '']''))"
    using f r by (intro exI[of _ ?repl] conjI)
qed

text \<open>
  Without location records, the reference on page 1 is replaced by the text of page 1,
  although the extraction map holds the text of page 2.
\<close>

theorem ocr_text_last_write_wins_counterexample:
  "map_of (scan_ocr_texts (snd (split_into_pages repeated_block_document))) 1 = Some ''Late text.'' \<and>
   py_split_nl (fst (process_document repeated_block_document None)) =
     [''---[Start PDF page 1]---'', ''See [FN1: Early text.] here.'', ''---[End PDF page 1]---'',
      ''---[Start PDF page 2]---'', ''Again [FN1: Late text.] there.'', ''---[End PDF page 2]---'']"
  by code_simp

text \<open>
  With a location record that assigns footnote 1 to page 1, the reference on page 1 is
  replaced by the text of page 2, the last page that holds a text block for the number.
\<close>

theorem ocr_text_last_write_wins_witness:
  "fst (process_document repeated_block_document_tail (Some [(1, first_page_record)])) =
     py_join_nl
       [''---[Start PDF page 1]---'', ''See [FN1: Late text.] here.'', ''---[End PDF page 1]---'',
        ''---[Start PDF page 2]---'', ''Again $ ^{1} $ there.'', ''$ ^{1} $ Late text.'',
        ''---[End PDF page 2]---'',
        ''---[Start PDF page 3]---'', ''Once more $ ^{1} $ at the end.'', ''---[End PDF page 3]---'']"
proof -
  let ?b1 = "\<lparr>block_page_number = 1, start_delim = ''---[Start PDF page 1]---'',
      block_lines = [''See $ ^{1} $ here.'', ''$ ^{1} $ Early text.''],
      end_delim = ''---[End PDF page 1]---''\<rparr>"
  let ?b2 = "\<lparr>block_page_number = 2, start_delim = ''---[Start PDF page 2]---'',
      block_lines = [''Again $ ^{1} $ there.'', ''$ ^{1} $ Late text.''],
      end_delim = ''---[End PDF page 2]---''\<rparr>"
  let ?b3 = "\<lparr>block_page_number = 3, start_delim = ''---[Start PDF page 3]---'',
      block_lines = [''Once more $ ^{1} $ at the end.''],
      end_delim = ''---[End PDF page 3]---''\<rparr>"
  let ?cls = "[(1, first_page_record)]"
  have sp: "split_into_pages repeated_block_document_tail = ([], [?b1] @ ?b2 # [?b3])"
    by code_simp
  have b: "map_of (extract_ocr_footnotes (block_lines ?b2)) 1 = Some ''Late text.''"
    by code_simp
  have b3: "map_of (extract_ocr_footnotes (block_lines ?b3)) (1::int) = None"
    by code_simp
  have later: "\<forall>b'\<in>set [?b3]. map_of (extract_ocr_footnotes (block_lines b')) (1::int) = None"
    using b3 by simp
  have c: "snd (snd (process_document repeated_block_document_tail (Some ?cls))) = Some ?cls"
    by code_simp
  have rm: "remove_fn_text_blocks [''See $ ^{1} $ here.'', ''$ ^{1} $ Early text.''] {1}
              = [''See $ ^{1} $ here.'']"
    by code_simp
  have ms: "\<And>r. marker_sub r 0 ''See $ ^{1} $ here.'' = ''See'' @ r 1 '' $ ^{1} $'' @ '' here.''"
    by code_simp
  have s: "py_str_int 1 = ''1''"
    by code_simp
  have ne: "?cls \<noteq> []" by simp
  from ocr_text_last_write_wins[OF sp b later, THEN conjunct1, rule_format, OF ne]
  obtain cls' repl where
    c': "snd (snd (process_document repeated_block_document_tail (Some ?cls))) = Some cls'"
    and f: "fst (process_document repeated_block_document_tail (Some ?cls)) =
           py_join_nl ((if ([]::string list) \<noteq> [] then [py_join_nl []] else []) @
             concat (map (\<lambda>blk. [start_delim blk,
                 py_join_nl
                   (let keys = set (map fst (filter (\<lambda>(k, d). loc_page d = block_page_number blk) cls'))
                    in if keys = {} then block_lines blk
                       else map (marker_sub (repl blk) 0)
                              (remove_fn_text_blocks (block_lines blk) keys)),
                 end_delim blk]) ([?b1] @ ?b2 # [?b3])))"
    and r: "\<forall>blk g. repl blk 1 g =
            (if 1 \<in> set (map fst (filter (\<lambda>(k, d). loc_page d = block_page_number blk) cls')) \<and>
                ''Late text.'' \<noteq> []
             then '' [FN'' @ py_str_int 1 @ '': '' @ ''Late text.'' @ '']'' else g)"
    by blast
  from c c' have cls': "cls' = ?cls" by simp
  have r1: "repl ?b1 1 '' $ ^{1} $'' = '' [FN1: Late text.]''"
    using r[rule_format, of ?b1 "'' $ ^{1} $''"]
    by (simp add: cls' first_page_record_def s)
  show ?thesis
    unfolding f cls'
    by (simp add: first_page_record_def rm ms r1 del: marker_sub.simps)
qed

end
